theory Spec2Isabelle
  imports Complex_Main "HOL-Library.While_Combinator" "HOL-Library.AList"
begin

section \<open>Ordered set container (graph\_layout.pyx)\<close>

text \<open>
  The class \<^verbatim>\<open>OrderedSet\<close> keeps a dictionary from keys to entries of a circular
  doubly linked list. Iterating the object walks the list from \<^verbatim>\<open>end.next\<close>; a key is
  in the dictionary exactly when it has an entry in the list. The model is the list of keys
  in iteration order: \<^verbatim>\<open>elem in self\<close> is membership in the list, \<^verbatim>\<open>len(self)\<close> its
  length.
\<close>

type_synonym 'a OrderedSet = "'a list"

text \<open>\<^verbatim>\<open>_add(oset, key)\<close>: a key that is not in the dictionary gets a new entry linked in
  before \<^verbatim>\<open>end\<close>, that is, at the back; a key that is present changes nothing.\<close>

definition os_add :: "'a OrderedSet \<Rightarrow> 'a \<Rightarrow> 'a OrderedSet" where
  "os_add oset key = (if key \<in> set oset then oset else oset @ [key])"

text \<open>\<^verbatim>\<open>_discard(oset, key)\<close>: a present key's entry is unlinked.\<close>

definition os_discard :: "'a OrderedSet \<Rightarrow> 'a \<Rightarrow> 'a OrderedSet" where
  "os_discard oset key = (if key \<in> set oset then filter (\<lambda>k. k \<noteq> key) oset else oset)"

text \<open>\<^verbatim>\<open>OrderedSet.__init__(iterable)\<close> starts from the empty container of
  \<^verbatim>\<open>__cinit__\<close> and links every element that is not yet in the dictionary at the back;
  \<^verbatim>\<open>_from_iterable(it)\<close> is \<^verbatim>\<open>cls(it)\<close>.\<close>

definition OrderedSet_init :: "'a list \<Rightarrow> 'a OrderedSet" where
  "OrderedSet_init iterable = foldl os_add [] iterable"

definition from_iterable :: "'a list \<Rightarrow> 'a OrderedSet" where
  "from_iterable it = OrderedSet_init it"

text \<open>\<^verbatim>\<open>__sub__\<close>: the right operand is not a \<^verbatim>\<open>collections.abc.Set\<close>, so it is first
  rebuilt with \<^verbatim>\<open>_from_iterable\<close>; the result is built from the generator
  \<^verbatim>\<open>(value for value in self if value not in other)\<close>.\<close>

definition OrderedSet_sub :: "'a OrderedSet \<Rightarrow> 'a list \<Rightarrow> 'a OrderedSet" where
  "OrderedSet_sub self other =
     (let other' = from_iterable other
      in from_iterable (filter (\<lambda>v. v \<notin> set other') self))"

text \<open>\<^verbatim>\<open>__and__\<close>: as \<^verbatim>\<open>__sub__\<close>, keeping the values that are in the other operand.\<close>

definition OrderedSet_and :: "'a OrderedSet \<Rightarrow> 'a list \<Rightarrow> 'a OrderedSet" where
  "OrderedSet_and self other =
     (let other' = from_iterable other
      in from_iterable (filter (\<lambda>v. v \<in> set other') self))"

text \<open>\<^verbatim>\<open>__or__\<close>: the result is built from the chain
  \<^verbatim>\<open>(e for s in (self, other) for e in s)\<close>.\<close>

definition OrderedSet_or :: "'a OrderedSet \<Rightarrow> 'a list \<Rightarrow> 'a OrderedSet" where
  "OrderedSet_or self other = from_iterable (concat [self, other])"

text \<open>\<^verbatim>\<open>reverse\<close>: the keys are read with the reverse iterator, the container is cleared
  and refilled through \<^verbatim>\<open>update\<close>, which is \<^verbatim>\<open>_add\<close> on every element.\<close>

definition OrderedSet_reverse :: "'a OrderedSet \<Rightarrow> 'a OrderedSet" where
  "OrderedSet_reverse self = foldl os_add [] (rev self)"

text \<open>\<^verbatim>\<open>_isorderedsubset(seq1, seq2)\<close>: false when the first is longer; otherwise the
  zipped pairs are compared in order.\<close>

definition isorderedsubset :: "'a list \<Rightarrow> 'a list \<Rightarrow> bool" where
  "isorderedsubset seq1 seq2 =
     (if \<not> length seq1 \<le> length seq2 then False
      else list_all (\<lambda>(self_elem, other_elem). self_elem = other_elem) (zip seq1 seq2))"

definition isorderedsuperset :: "'a OrderedSet \<Rightarrow> 'a list \<Rightarrow> bool" where
  "isorderedsuperset self other = isorderedsubset other self"


section \<open>Joints, expressions and errors (data model)\<close>

text \<open>
  C doubles are kept abstract: the type variable \<open>'f\<close> stands for \<^verbatim>\<open>double\<close>, and the
  arithmetic of C and \<^verbatim>\<open>libc.math\<close> is a record of operations that every function
  takes as its first argument. Nothing is assumed about the operations, so what is proved
  for every \<open>ops\<close> holds for IEEE arithmetic as for any other. Two instances are defined
  further down, for the evaluated examples: exact real arithmetic (\<open>real_ops\<close>) and the
  rounding of binary64 (\<open>b64_ops\<close>).
\<close>

record 'f fops =
  f_lit :: "int \<Rightarrow> 'f"
  f_pi :: "'f"
  f_nan :: "'f"
  f_add :: "'f \<Rightarrow> 'f \<Rightarrow> 'f"
  f_sub :: "'f \<Rightarrow> 'f \<Rightarrow> 'f"
  f_mul :: "'f \<Rightarrow> 'f \<Rightarrow> 'f"
  f_div :: "'f \<Rightarrow> 'f \<Rightarrow> 'f"
  f_abs :: "'f \<Rightarrow> 'f"
  f_sqrt :: "'f \<Rightarrow> 'f"
  f_sin :: "'f \<Rightarrow> 'f"
  f_cos :: "'f \<Rightarrow> 'f"
  f_atan2 :: "'f \<Rightarrow> 'f \<Rightarrow> 'f"
  f_hypot :: "'f \<Rightarrow> 'f \<Rightarrow> 'f"
  f_gt :: "'f \<Rightarrow> 'f \<Rightarrow> bool"
  f_lt :: "'f \<Rightarrow> 'f \<Rightarrow> bool"
  f_eq :: "'f \<Rightarrow> 'f \<Rightarrow> bool"
  f_isnan :: "'f \<Rightarrow> bool"

text \<open>A coordinate is a pair \<open>(x, y)\<close>: the class \<^verbatim>\<open>Coordinate\<close> and the tuples
  \<^verbatim>\<open>(x, y)\<close> of the dictionaries.\<close>

type_synonym 'f Coordinate = "'f \<times> 'f"

datatype VJoint = VJoint_R | VJoint_P | VJoint_RP

text \<open>
  Modelled from the spec: the class \<^verbatim>\<open>VPoint\<close> (module \<^verbatim>\<open>expression\<close>) is not under
  src/. A joint has an ordered list of link names, a kind, an orientation angle, and one or
  two coordinates \<^verbatim>\<open>c[0]\<close>, \<^verbatim>\<open>c[1]\<close>; the attributes \<^verbatim>\<open>x\<close> and \<^verbatim>\<open>y\<close> that
  \<^verbatim>\<open>t_config\<close> reads are the fields \<open>vpoint_x\<close> and \<open>vpoint_y\<close>.
\<close>

record 'f VPoint =
  links :: "string list"
  type :: VJoint
  angle :: "'f"
  vpoint_x :: "'f"
  vpoint_y :: "'f"
  c :: "'f Coordinate list"

text \<open>
  Modelled from the spec: \<^verbatim>\<open>VPoint.c_slider_joint(links, type, angle, x, y)\<close> builds a
  new joint with the given link list, kind and angle at the position \<open>(x, y)\<close>; a slider
  joint has two coordinates, both at that position.
\<close>

definition c_slider_joint ::
  "string list \<Rightarrow> VJoint \<Rightarrow> 'f \<Rightarrow> 'f \<Rightarrow> 'f \<Rightarrow> 'f VPoint" where
  "c_slider_joint ls t a px py =
     \<lparr>links = ls, type = t, angle = a, vpoint_x = px, vpoint_y = py, c = [(px, py), (px, py)]\<rparr>"

text \<open>The name of the frame link: \<^verbatim>\<open>VLink.FRAME\<close> in triangulation.pyx, the literal
  \<^verbatim>\<open>'ground'\<close> in tinycadlib.pyx.\<close>

definition VLink_FRAME :: string where
  "VLink_FRAME = ''ground''"

text \<open>
  The methods of \<^verbatim>\<open>VPoint\<close> that the two modules call are parameters: the predicates
  \<^verbatim>\<open>grounded()\<close>, \<^verbatim>\<open>pin_grounded()\<close>, \<^verbatim>\<open>has_offset()\<close> and the function
  \<^verbatim>\<open>slope_angle(p, num1, num2)\<close>.
\<close>

record 'f VPoint_methods =
  grounded :: "'f VPoint \<Rightarrow> bool"
  pin_grounded :: "'f VPoint \<Rightarrow> bool"
  has_offset :: "'f VPoint \<Rightarrow> bool"
  slope_angle :: "'f VPoint \<Rightarrow> 'f VPoint \<Rightarrow> nat \<Rightarrow> nat \<Rightarrow> 'f"

text \<open>
  Modelled from the spec: "grounded means one of its links is the distinguished
  frame/ground link". The other methods have no description in the spec; this instance,
  used only to evaluate examples, takes a joint to be pin-grounded when the frame is among
  its links after the first, to have no offset, and every slope angle to be the literal 0.
\<close>

definition spec_methods :: "'f fops \<Rightarrow> 'f VPoint_methods" where
  "spec_methods ops =
     \<lparr>grounded = (\<lambda>v. VLink_FRAME \<in> set (links v)),
      pin_grounded = (\<lambda>v. VLink_FRAME \<in> set (drop 1 (links v))),
      has_offset = (\<lambda>v. False),
      slope_angle = (\<lambda>v p n1 n2. f_lit ops 0)\<rparr>"

section \<open>Errors, symbols and the expression stack\<close>

text \<open>
  Exceptions are values. \<open>ValueError\<close> carries which of the module's messages it is:
  "wrong number of input parameters: {dof_input} / {dof}", "wrong driver definition.",
  "result contains failure from sketch solve", "result contains failure: Point{i}",
  "unsupported function", "Invalid graph" (graph\_layout.pyx), and \<open>Solver_failure\<close> for a
  \<^verbatim>\<open>ValueError\<close> raised inside the external solver. \<open>KeyError\<close>, \<open>IndexError\<close> and \<open>TypeError\<close> are what Python raises
  on a missing dictionary key, an index out of range, and a value of the wrong shape.
\<close>

datatype vmsg =
    Wrong_input_count nat int
  | Wrong_driver
  | Sketch_failure
  | Point_failure nat
  | Unsupported_function
  | Solver_failure
  | Invalid_graph

datatype error = ValueError vmsg | KeyError | IndexError | TypeError

primrec foldE :: "('s \<Rightarrow> 'a \<Rightarrow> error + 's) \<Rightarrow> 's \<Rightarrow> 'a list \<Rightarrow> error + 's" where
  "foldE f s [] = Inr s"
| "foldE f s (a # as) = (case f s a of Inl e \<Rightarrow> Inl e | Inr s' \<Rightarrow> foldE f s' as)"

definition bindE :: "error + 'a \<Rightarrow> ('a \<Rightarrow> error + 'b) \<Rightarrow> error + 'b" where
  "bindE m f = (case m of Inl e \<Rightarrow> Inl e | Inr a \<Rightarrow> f a)"

text \<open>\<^verbatim>\<open>xs[i]\<close> on a list and \<^verbatim>\<open>d[k]\<close> on a dictionary.\<close>

definition nth_err :: "'a list \<Rightarrow> nat \<Rightarrow> error + 'a" where
  "nth_err xs i = (if i < length xs then Inr (xs ! i) else Inl IndexError)"

definition lookup_err :: "('k \<rightharpoonup> 'v) \<Rightarrow> 'k \<Rightarrow> error + 'v" where
  "lookup_err d k = (case d k of None \<Rightarrow> Inl KeyError | Some v \<Rightarrow> Inr v)"

text \<open>\<^verbatim>\<open>enumerate(xs)\<close>.\<close>

definition enumerate_list :: "'a list \<Rightarrow> (nat \<times> 'a) list" where
  "enumerate_list xs = zip [0 ..< length xs] xs"

text \<open>A symbol is a pair of a label and an index; \<^verbatim>\<open>symbol_str\<close> prints it as
  \<^verbatim>\<open>P{n}\<close>, \<^verbatim>\<open>L{n}\<close>, \<^verbatim>\<open>a{n}\<close>, \<^verbatim>\<open>S{n}\<close>, and as the empty string for any other
  label (\<open>OTHER_LABEL\<close>). The index is printed in decimal.\<close>

datatype label = P_LABEL | L_LABEL | A_LABEL | S_LABEL | OTHER_LABEL

type_synonym sym = "label \<times> nat"

fun str_nat :: "nat \<Rightarrow> string" where
  "str_nat n =
     (if n < 10 then [''0123456789'' ! n]
      else str_nat (n div 10) @ [''0123456789'' ! (n mod 10)])"

definition symbol_str :: "sym \<Rightarrow> string" where
  "symbol_str p =
     (if fst p = P_LABEL then ''P'' @ str_nat (snd p)
      else if fst p = L_LABEL then ''L'' @ str_nat (snd p)
      else if fst p = A_LABEL then ''a'' @ str_nat (snd p)
      else if fst p = S_LABEL then ''S'' @ str_nat (snd p)
      else '''')"

text \<open>The function kinds; \<open>Func_other\<close> stands for any value of the C enum besides the
  five.\<close>

datatype Func = PLA | PLAP | PLLP | PLPP | PXY | Func_other

text \<open>
  The C struct \<^verbatim>\<open>Expr\<close>. A constructor of the stack assigns only the fields of its kind
  and leaves the others as they are in a fresh struct; the model starts from \<open>Expr_fresh\<close>
  there. No function reads a field that the expression's kind did not assign.
\<close>

record Expr =
  func :: Func
  c1 :: sym
  v1 :: sym
  v2 :: sym
  c2 :: sym
  c3 :: sym
  c4 :: sym
  op :: bool

definition Expr_fresh :: Expr where
  "Expr_fresh =
     \<lparr>func = PLA, c1 = (OTHER_LABEL, 0), v1 = (OTHER_LABEL, 0), v2 = (OTHER_LABEL, 0),
      c2 = (OTHER_LABEL, 0), c3 = (OTHER_LABEL, 0), c4 = (OTHER_LABEL, 0), op = False\<rparr>"

type_synonym EStack = "Expr list"

definition add_pla :: "EStack \<Rightarrow> sym \<Rightarrow> sym \<Rightarrow> sym \<Rightarrow> sym \<Rightarrow> EStack" where
  "add_pla stack a l g target =
     stack @ [Expr_fresh\<lparr>func := PLA, c1 := a, v1 := l, v2 := g, c2 := target, op := False\<rparr>]"

definition add_plap :: "EStack \<Rightarrow> sym \<Rightarrow> sym \<Rightarrow> sym \<Rightarrow> sym \<Rightarrow> sym \<Rightarrow> EStack" where
  "add_plap stack a l g b target =
     stack @ [Expr_fresh\<lparr>func := PLAP, c1 := a, v1 := l, v2 := g, c2 := b, c3 := target,
                         op := False\<rparr>]"

definition add_pllp :: "EStack \<Rightarrow> sym \<Rightarrow> sym \<Rightarrow> sym \<Rightarrow> sym \<Rightarrow> sym \<Rightarrow> EStack" where
  "add_pllp stack a l0 l1 b t =
     stack @ [Expr_fresh\<lparr>func := PLLP, c1 := a, v1 := l0, v2 := l1, c2 := b, c3 := t,
                         op := False\<rparr>]"

definition add_plpp ::
  "EStack \<Rightarrow> sym \<Rightarrow> sym \<Rightarrow> sym \<Rightarrow> sym \<Rightarrow> sym \<Rightarrow> bool \<Rightarrow> EStack" where
  "add_plpp stack a l b d t flag =
     stack @ [Expr_fresh\<lparr>func := PLPP, c1 := a, v1 := l, c2 := b, c3 := d, c4 := t,
                         op := flag\<rparr>]"

definition add_pxy :: "EStack \<Rightarrow> sym \<Rightarrow> sym \<Rightarrow> sym \<Rightarrow> sym \<Rightarrow> EStack" where
  "add_pxy stack a l0 l1 t =
     stack @ [Expr_fresh\<lparr>func := PXY, c1 := a, v1 := l0, v2 := l1, c2 := t, op := False\<rparr>]"

section \<open>Geometry kernel (tinycadlib.pyx)\<close>

definition radians :: "'f fops \<Rightarrow> 'f \<Rightarrow> 'f" where
  "radians ops degree = f_mul ops (f_div ops degree (f_lit ops 180)) (f_pi ops)"

definition distance :: "'f fops \<Rightarrow> 'f \<Rightarrow> 'f \<Rightarrow> 'f \<Rightarrow> 'f \<Rightarrow> 'f" where
  "distance ops x1 y1 x2 y2 = f_hypot ops (f_sub ops x2 x1) (f_sub ops y2 y1)"

definition Coordinate_distance :: "'f fops \<Rightarrow> 'f Coordinate \<Rightarrow> 'f Coordinate \<Rightarrow> 'f" where
  "Coordinate_distance ops self p = distance ops (fst self) (snd self) (fst p) (snd p)"

definition Coordinate_is_nan :: "'f fops \<Rightarrow> 'f Coordinate \<Rightarrow> bool" where
  "Coordinate_is_nan ops self = f_isnan ops (fst self)"

definition tuple_distance :: "'f fops \<Rightarrow> 'f Coordinate \<Rightarrow> 'f Coordinate \<Rightarrow> 'f" where
  "tuple_distance ops p q = distance ops (fst p) (snd p) (fst q) (snd q)"

definition plap ::
  "'f fops \<Rightarrow> 'f Coordinate \<Rightarrow> 'f \<Rightarrow> 'f \<Rightarrow> 'f Coordinate option \<Rightarrow> bool \<Rightarrow> 'f Coordinate" where
  "plap ops p d0 a0 q invert =
     (let a1 = (case q of
                  Some q' \<Rightarrow> f_atan2 ops (f_sub ops (snd q') (snd p)) (f_sub ops (fst q') (fst p))
                | None \<Rightarrow> f_lit ops 0)
      in if invert
         then (f_add ops (fst p) (f_mul ops d0 (f_cos ops (f_sub ops a1 a0))),
               f_add ops (snd p) (f_mul ops d0 (f_sin ops (f_sub ops a1 a0))))
         else (f_add ops (fst p) (f_mul ops d0 (f_cos ops (f_add ops a1 a0))),
               f_add ops (snd p) (f_mul ops d0 (f_sin ops (f_add ops a1 a0)))))"

definition pllp ::
  "'f fops \<Rightarrow> 'f Coordinate \<Rightarrow> 'f \<Rightarrow> 'f \<Rightarrow> 'f Coordinate \<Rightarrow> bool \<Rightarrow> 'f Coordinate" where
  "pllp ops p d0 d1 q invert =
     (let dx = f_sub ops (fst q) (fst p);
          dy = f_sub ops (snd q) (snd p);
          d = Coordinate_distance ops p q
      in if f_gt ops d (f_add ops d0 d1) then (f_nan ops, f_nan ops)
         else if f_lt ops d (f_abs ops (f_sub ops d0 d1)) then (f_nan ops, f_nan ops)
         else if f_eq ops d (f_lit ops 0) \<and> f_eq ops d0 d1 then (f_nan ops, f_nan ops)
         else
           let a = f_div ops
                     (f_add ops (f_sub ops (f_mul ops d0 d0) (f_mul ops d1 d1)) (f_mul ops d d))
                     (f_mul ops (f_lit ops 2) d);
               h = f_sqrt ops (f_sub ops (f_mul ops d0 d0) (f_mul ops a a));
               xm = f_add ops (fst p) (f_div ops (f_mul ops a dx) d);
               ym = f_add ops (snd p) (f_div ops (f_mul ops a dy) d)
           in if invert
              then (f_add ops xm (f_div ops (f_mul ops h dy) d),
                    f_sub ops ym (f_div ops (f_mul ops h dx) d))
              else (f_sub ops xm (f_div ops (f_mul ops h dy) d),
                    f_add ops ym (f_div ops (f_mul ops h dx) d)))"

definition plpp ::
  "'f fops \<Rightarrow> 'f Coordinate \<Rightarrow> 'f \<Rightarrow> 'f Coordinate \<Rightarrow> 'f Coordinate \<Rightarrow> bool \<Rightarrow> 'f Coordinate" where
  "plpp ops p d0 q r invert =
     (let line_mag = Coordinate_distance ops q r;
          dx = f_sub ops (fst r) (fst q);
          dy = f_sub ops (snd r) (snd q);
          u = f_div ops
                (f_add ops (f_mul ops (f_sub ops (fst p) (fst q)) dx)
                           (f_mul ops (f_sub ops (snd p) (snd q)) dy))
                (f_mul ops line_mag line_mag);
          inter = (f_add ops (fst q) (f_mul ops u dx), f_add ops (snd q) (f_mul ops u dy));
          d = Coordinate_distance ops p inter
      in if f_gt ops d d0 then (f_nan ops, f_nan ops)
         else if f_eq ops d d0 then (fst inter, snd inter)
         else
           let d' = f_div ops (f_sqrt ops (f_sub ops (f_mul ops d0 d0) (f_mul ops d d))) line_mag
           in if invert
              then (f_sub ops (fst inter) (f_mul ops dx d'), f_sub ops (snd inter) (f_mul ops dy d'))
              else (f_add ops (fst inter) (f_mul ops dx d'), f_add ops (snd inter) (f_mul ops dy d')))"

definition pxy :: "'f fops \<Rightarrow> 'f Coordinate \<Rightarrow> 'f \<Rightarrow> 'f \<Rightarrow> 'f Coordinate" where
  "pxy ops p dx dy = (f_add ops (fst p) dx, f_add ops (snd p) dy)"


section \<open>Degrees of freedom (tinycadlib.pyx, vpoint\_dof)\<close>

text \<open>
  The loop body of \<^verbatim>\<open>vpoint_dof\<close> on the state \<open>(j1, j2, vlinks)\<close>. The counters are C
  \<^verbatim>\<open>int\<close>s; they are modelled as unbounded integers (a joint list long enough to overflow
  them does not fit in memory).
\<close>

definition vpoint_dof_step ::
  "int \<times> int \<times> string set \<Rightarrow> 'f VPoint \<Rightarrow> int \<times> int \<times> string set" where
  "vpoint_dof_step s vpoint =
     (case s of (j1, j2, vlinks) \<Rightarrow>
        let link_count = int (length (links vpoint)) in
        if \<not> link_count > 1 then (j1, j2, vlinks)
        else
          let vlinks' = vlinks \<union> set (links vpoint) in
          (case type vpoint of
             VJoint_R \<Rightarrow> (j1 + (link_count - 1), j2, vlinks')
           | VJoint_P \<Rightarrow>
               ((if link_count > 2 then j1 + (link_count - 2) else j1) + 1, j2, vlinks')
           | VJoint_RP \<Rightarrow>
               ((if link_count > 2 then j1 + (link_count - 2) else j1), j2 + 1, vlinks')))"

definition vpoint_dof :: "'f VPoint list \<Rightarrow> int" where
  "vpoint_dof vpoints =
     (case foldl vpoint_dof_step (0, 0, {''ground''}) vpoints of
        (j1, j2, vlinks) \<Rightarrow> 3 * (int (card vlinks) - 1) - (2 * j1) - j2)"

text \<open>
  The formula in the words of the spec. A joint counts when it has at least two link
  memberships; \<open>dof_links\<close> are the distinct links on such joints together with the ground
  link; \<open>dof_j1\<close> is what one such joint adds to \<open>j1\<close> and \<open>dof_j2\<close> what it adds to
  \<open>j2\<close>.
\<close>

definition dof_joints :: "'f VPoint list \<Rightarrow> 'f VPoint list" where
  "dof_joints vpoints = filter (\<lambda>v. 2 \<le> length (links v)) vpoints"

definition dof_links :: "'f VPoint list \<Rightarrow> string set" where
  "dof_links vpoints = insert ''ground'' (set (concat (map links (dof_joints vpoints))))"

definition dof_j1 :: "'f VPoint \<Rightarrow> int" where
  "dof_j1 v =
     (case type v of
        VJoint_R \<Rightarrow> int (length (links v)) - 1
      | VJoint_P \<Rightarrow> 1 + (int (length (links v)) - 2)
      | VJoint_RP \<Rightarrow> int (length (links v)) - 2)"

definition dof_j2 :: "'f VPoint \<Rightarrow> int" where
  "dof_j2 v = (case type v of VJoint_RP \<Rightarrow> 1 | VJoint_R \<Rightarrow> 0 | VJoint_P \<Rightarrow> 0)"

definition dof_formula :: "'f VPoint list \<Rightarrow> int" where
  "dof_formula vpoints =
     3 * (int (card (dof_links vpoints)) - 1)
     - 2 * sum_list (map dof_j1 (dof_joints vpoints))
     - sum_list (map dof_j2 (dof_joints vpoints))"

section \<open>Data collecting (tinycadlib.pyx)\<close>

text \<open>
  The values of the data dictionary are scalars (lengths, angles, offsets) and coordinate
  tuples. The dictionary \<^verbatim>\<open>mapping\<close> has three kinds of keys, as the docstring of
  \<^verbatim>\<open>data_collecting\<close> lays out: an \<^verbatim>\<open>int\<close> key maps a joint index to a symbol name
  (\<^verbatim>\<open>{0: 'P0'}\<close>), a \<^verbatim>\<open>str\<close> key gives a symbol a value (\<^verbatim>\<open>{'P0': (10., 20.)}\<close>), and
  a \<^verbatim>\<open>tuple\<close> key gives a link length (\<^verbatim>\<open>{(a, b): 20.}\<close>). The model is the list of items
  in the order of \<^verbatim>\<open>mapping.items()\<close>.
\<close>

datatype 'f dval = Scalar 'f | Coord "'f Coordinate"

datatype 'f mentry = Name nat string | Known string "'f dval" | Length "nat list" 'f

fun mapping_name :: "'f mentry list \<Rightarrow> nat \<Rightarrow> string option" where
  "mapping_name [] i = None"
| "mapping_name (Name k s # m) i = (if k = i then Some s else mapping_name m i)"
| "mapping_name (Known k v # m) i = mapping_name m i"
| "mapping_name (Length k v # m) i = mapping_name m i"

fun mapping_known :: "'f mentry list \<Rightarrow> string \<Rightarrow> 'f dval option" where
  "mapping_known [] s = None"
| "mapping_known (Known k v # m) s = (if k = s then Some v else mapping_known m s)"
| "mapping_known (Name k v # m) s = mapping_known m s"
| "mapping_known (Length k v # m) s = mapping_known m s"

text \<open>The dictionary \<^verbatim>\<open>vlinks\<close> of \<^verbatim>\<open>data_collecting\<close>: link name to the list of the
  joints on it.\<close>

definition vlinks_append :: "(string \<rightharpoonup> nat list) \<Rightarrow> nat \<Rightarrow> string \<Rightarrow> (string \<rightharpoonup> nat list)" where
  "vlinks_append vlinks node link =
     (case vlinks link of
        None \<Rightarrow> vlinks(link \<mapsto> [node])
      | Some ns \<Rightarrow> vlinks(link \<mapsto> ns @ [node]))"

definition dc_vlinks :: "'f VPoint list \<Rightarrow> (string \<rightharpoonup> nat list)" where
  "dc_vlinks vpoints =
     foldl (\<lambda>vlinks (node, vpoint).
              foldl (\<lambda>vl link. vlinks_append vl node link) vlinks (links vpoint))
       Map.empty (enumerate_list vpoints)"

text \<open>
  The replacement of the P joints' friends by RP joints, lines 307 to 334. \<open>dc_replace\<close>
  is the body of the innermost loop for one \<open>node\<close>; \<open>dc_normalize_base\<close> is the body
  of the outermost loop for one \<open>base\<close>. The set \<^verbatim>\<open>links\<close> of the source is written and
  never read, and is left out.
\<close>

definition dc_replace ::
  "'f VPoint \<Rightarrow> nat \<Rightarrow> 'f VPoint list \<Rightarrow> nat \<Rightarrow> error + 'f VPoint list" where
  "dc_replace vpoint base vpoints node =
     bindE (nth_err vpoints node) (\<lambda>vpoint'.
       if node = base \<or> type vpoint' \<in> {VJoint_P, VJoint_RP} then Inr vpoints
       else
         bindE (nth_err (c vpoint') 0) (\<lambda>xy.
         bindE (nth_err (links vpoint) 0) (\<lambda>l0.
           Inr (vpoints[node :=
                  c_slider_joint
                    ([l0] @ filter (\<lambda>l. l \<notin> set (links vpoint)) (links vpoint'))
                    VJoint_RP (angle vpoint) (fst xy) (snd xy)]))))"

definition dc_normalize_base ::
  "(string \<rightharpoonup> nat list) \<Rightarrow> 'f VPoint list \<Rightarrow> nat \<Rightarrow> error + 'f VPoint list" where
  "dc_normalize_base vlinks vpoints base =
     bindE (nth_err vpoints base) (\<lambda>vpoint.
       if type vpoint \<noteq> VJoint_P then Inr vpoints
       else
         foldE (\<lambda>vps link.
                  bindE (lookup_err vlinks link) (\<lambda>nodes. foldE (dc_replace vpoint base) vps nodes))
           vpoints (drop 1 (links vpoint)))"

definition dc_normalize :: "'f VPoint list \<Rightarrow> error + 'f VPoint list" where
  "dc_normalize vpoints =
     foldE (dc_normalize_base (dc_vlinks vpoints)) vpoints [0 ..< length vpoints]"

text \<open>The loop over \<^verbatim>\<open>mapping.items()\<close>, lines 342 to 348, on the state
  \<open>(mapping_r, length, data_dict)\<close>.\<close>

definition dc_mapping_step ::
  "'f mentry list \<Rightarrow> (string \<rightharpoonup> nat) \<times> (nat set \<rightharpoonup> 'f) \<times> (string \<rightharpoonup> 'f dval) \<Rightarrow> 'f mentry \<Rightarrow>
   (string \<rightharpoonup> nat) \<times> (nat set \<rightharpoonup> 'f) \<times> (string \<rightharpoonup> 'f dval)" where
  "dc_mapping_step mapping s entry =
     (case s of (mapping_r, lengths, data_dict) \<Rightarrow>
        (case entry of
           Name k v \<Rightarrow>
             (mapping_r(v \<mapsto> k), lengths,
              (case mapping_known mapping v of
                 Some w \<Rightarrow> data_dict(v \<mapsto> w)
               | None \<Rightarrow> data_dict))
         | Known k v \<Rightarrow> (mapping_r, lengths, data_dict)
         | Length k v \<Rightarrow> (mapping_r, lengths(set k \<mapsto> v), data_dict)))"

text \<open>The list \<^verbatim>\<open>pos\<close>, lines 350 to 355.\<close>

definition dc_pos :: "'f VPoint list \<Rightarrow> error + 'f Coordinate list" where
  "dc_pos vpoints =
     foldE (\<lambda>pos vpoint.
              if type vpoint = VJoint_R
              then bindE (nth_err (c vpoint) 0) (\<lambda>p. Inr (pos @ [p]))
              else bindE (nth_err (c vpoint) 1) (\<lambda>p. Inr (pos @ [p])))
       [] vpoints"

text \<open>\<^verbatim>\<open>base_friend(node, vpoints)\<close>: the index of the first joint that has the first link
  of joint \<open>node\<close> among its links. The function has no \<^verbatim>\<open>return\<close> after its loop; a
  \<^verbatim>\<open>cdef int\<close> function that falls off its end returns 0.\<close>

fun base_friend_loop :: "nat \<Rightarrow> 'f VPoint list \<Rightarrow> (nat \<times> 'f VPoint) list \<Rightarrow> error + nat" where
  "base_friend_loop node vpoints [] = Inr 0"
| "base_friend_loop node vpoints ((i, vpoint) # rest) =
     (case nth_err vpoints node of
        Inl e \<Rightarrow> Inl e
      | Inr vn \<Rightarrow>
          (case links vn of
             [] \<Rightarrow> base_friend_loop node vpoints rest
           | l0 # ls \<Rightarrow>
               if l0 \<in> set (links vpoint) then Inr i
               else base_friend_loop node vpoints rest))"

definition base_friend :: "nat \<Rightarrow> 'f VPoint list \<Rightarrow> error + nat" where
  "base_friend node vpoints = base_friend_loop node vpoints (enumerate_list vpoints)"

text \<open>The virtual coordinates of the slider slots, lines 360 to 371, on the state
  \<open>(pos, mapping_r)\<close>.\<close>

definition dc_slider ::
  "'f fops \<Rightarrow> 'f VPoint_methods \<Rightarrow> 'f VPoint list \<Rightarrow>
   'f Coordinate list \<times> (string \<rightharpoonup> nat) \<Rightarrow> nat \<times> 'f VPoint \<Rightarrow>
   error + 'f Coordinate list \<times> (string \<rightharpoonup> nat)" where
  "dc_slider ops cls vpoints s iv =
     (case s of (pos, mapping_r) \<Rightarrow>
      case iv of (i, vpoint) \<Rightarrow>
        if type vpoint \<noteq> VJoint_RP then Inr (pos, mapping_r)
        else
          bindE (base_friend i vpoints) (\<lambda>bf.
          bindE (nth_err vpoints bf) (\<lambda>vbf.
            let angle' = radians ops
                  (f_add ops
                     (f_sub ops (angle vpoint) (slope_angle cls vpoint vbf 1 0))
                     (slope_angle cls vpoint vbf 0 0))
            in bindE (nth_err (c vpoint) 1) (\<lambda>p1.
                 let pos' = pos @ [(f_add ops (fst p1) (f_cos ops angle'),
                                    f_add ops (snd p1) (f_sin ops angle'))]
                 in Inr (pos', mapping_r(''S'' @ str_nat i \<mapsto> length pos' - 1))))))"

text \<open>The four ways the expression loop fills the data dictionary: a link length (given
  for the pair of joints, or else measured), and a point that is not yet in the
  dictionary.\<close>

definition dc_link ::
  "'f fops \<Rightarrow> (nat set \<rightharpoonup> 'f) \<Rightarrow> 'f Coordinate list \<Rightarrow> nat \<Rightarrow> nat \<Rightarrow> error + 'f dval" where
  "dc_link ops lengths pos a b =
     (case lengths {a, b} of
        Some l \<Rightarrow> Inr (Scalar l)
      | None \<Rightarrow>
          bindE (nth_err pos a) (\<lambda>pa.
          bindE (nth_err pos b) (\<lambda>pb. Inr (Scalar (tuple_distance ops pa pb)))))"

definition dc_point ::
  "(string \<rightharpoonup> nat) \<Rightarrow> 'f Coordinate list \<Rightarrow> (string \<rightharpoonup> 'f dval) \<Rightarrow> sym \<Rightarrow>
   error + (string \<rightharpoonup> 'f dval)" where
  "dc_point mapping_r pos data_dict s =
     (if symbol_str s \<in> dom data_dict then Inr data_dict
      else
        bindE (lookup_err mapping_r (symbol_str s)) (\<lambda>n.
        bindE (nth_err pos n) (\<lambda>p. Inr (data_dict(symbol_str s \<mapsto> Coord p)))))"

definition dc_offset ::
  "'f fops \<Rightarrow> 'f mentry list \<Rightarrow> 'f Coordinate list \<Rightarrow> nat \<Rightarrow> nat \<Rightarrow> bool \<Rightarrow> sym \<Rightarrow>
   error + 'f dval" where
  "dc_offset ops mapping pos node target second s =
     (case mapping_known mapping (symbol_str s) of
        Some w \<Rightarrow> Inr w
      | None \<Rightarrow>
          bindE (nth_err pos target) (\<lambda>pt.
          bindE (nth_err pos node) (\<lambda>pn.
            Inr (Scalar (if second then f_sub ops (snd pt) (snd pn)
                         else f_sub ops (fst pt) (fst pn))))))"

text \<open>The body of the loop over the stack, lines 378 to 440, on the state
  \<open>(data_dict, dof)\<close>. A function kind outside the five takes no branch.\<close>

definition dc_expr ::
  "'f fops \<Rightarrow> 'f mentry list \<Rightarrow> (string \<rightharpoonup> nat) \<Rightarrow> (nat set \<rightharpoonup> 'f) \<Rightarrow> 'f Coordinate list \<Rightarrow>
   (string \<rightharpoonup> 'f dval) \<times> nat \<Rightarrow> Expr \<Rightarrow> error + (string \<rightharpoonup> 'f dval) \<times> nat" where
  "dc_expr ops mapping mapping_r lengths pos s expr =
     (case s of (data_dict, dof) \<Rightarrow>
      bindE (lookup_err mapping_r (symbol_str (c1 expr))) (\<lambda>node.
      bindE (dc_point mapping_r pos data_dict (c1 expr)) (\<lambda>dd1.
        if func expr \<in> {PLA, PLAP} then
          bindE (lookup_err mapping_r
                   (symbol_str (if func expr = PLA then c2 expr else c3 expr))) (\<lambda>target.
          bindE (dc_link ops lengths pos node target) (\<lambda>l.
          bindE (if func expr = PLAP
                 then dc_point mapping_r pos (dd1(symbol_str (v1 expr) \<mapsto> l)) (c2 expr)
                 else Inr (dd1(symbol_str (v1 expr) \<mapsto> l))) (\<lambda>dd2.
            Inr (dd2, dof + 1))))
        else if func expr = PLLP then
          bindE (lookup_err mapping_r (symbol_str (c3 expr))) (\<lambda>target.
          bindE (dc_link ops lengths pos node target) (\<lambda>l.
          bindE (lookup_err mapping_r (symbol_str (c2 expr))) (\<lambda>n2.
          bindE (dc_link ops lengths pos n2 target) (\<lambda>l2.
          bindE (dc_point mapping_r pos
                   (dd1(symbol_str (v1 expr) \<mapsto> l, symbol_str (v2 expr) \<mapsto> l2)) (c2 expr)) (\<lambda>dd2.
            Inr (dd2, dof))))))
        else if func expr = PLPP then
          bindE (lookup_err mapping_r (symbol_str (c4 expr))) (\<lambda>target.
          bindE (dc_link ops lengths pos node target) (\<lambda>l.
          bindE (dc_point mapping_r pos (dd1(symbol_str (v1 expr) \<mapsto> l)) (c2 expr)) (\<lambda>dd2.
            Inr (dd2, dof))))
        else if func expr = PXY then
          bindE (lookup_err mapping_r (symbol_str (c2 expr))) (\<lambda>target.
          bindE (dc_offset ops mapping pos node target False (v1 expr)) (\<lambda>dx.
          bindE (dc_offset ops mapping pos node target True (v2 expr)) (\<lambda>dy.
            Inr (dd1(symbol_str (v1 expr) \<mapsto> dx, symbol_str (v2 expr) \<mapsto> dy), dof))))
        else Inr (dd1, dof))))"

text \<open>The grounded R joints, lines 443 to 445.\<close>

definition dc_grounded ::
  "'f VPoint_methods \<Rightarrow> 'f mentry list \<Rightarrow> (string \<rightharpoonup> 'f dval) \<Rightarrow> nat \<times> 'f VPoint \<Rightarrow>
   error + (string \<rightharpoonup> 'f dval)" where
  "dc_grounded cls mapping data_dict iv =
     (case iv of (i, vpoint) \<Rightarrow>
        if grounded cls vpoint \<and> type vpoint = VJoint_R then
          bindE (nth_err (c vpoint) 0) (\<lambda>p.
          bindE (case mapping_name mapping i of None \<Rightarrow> Inl KeyError | Some k \<Rightarrow> Inr k) (\<lambda>k.
            Inr (data_dict(k \<mapsto> Coord p))))
        else Inr data_dict)"

text \<open>\<^verbatim>\<open>data_collecting\<close> after the replacement of the joints (lines 336 to 447), on the
  joint list \<^verbatim>\<open>vpoints\<close> that the replacement leaves.\<close>

definition dc_collect ::
  "'f fops \<Rightarrow> 'f VPoint_methods \<Rightarrow> EStack \<Rightarrow> 'f mentry list \<Rightarrow> 'f VPoint list \<Rightarrow>
   error + (string \<rightharpoonup> 'f dval) \<times> nat" where
  "dc_collect ops cls exprs mapping vpoints =
     (case foldl (dc_mapping_step mapping) (Map.empty, Map.empty, Map.empty) mapping of
        (mapping_r, lengths, data_dict) \<Rightarrow>
      bindE (dc_pos vpoints) (\<lambda>pos.
      bindE (foldE (dc_slider ops cls vpoints) (pos, mapping_r) (enumerate_list vpoints)) (\<lambda>pm.
      bindE (foldE (dc_expr ops mapping (snd pm) lengths (fst pm)) (data_dict, 0) exprs) (\<lambda>dd.
      bindE (foldE (dc_grounded cls mapping) (fst dd) (enumerate_list vpoints)) (\<lambda>data_dict'.
        Inr (data_dict', snd dd))))))"

definition data_collecting ::
  "'f fops \<Rightarrow> 'f VPoint_methods \<Rightarrow> EStack \<Rightarrow> 'f mentry list \<Rightarrow> 'f VPoint list \<Rightarrow>
   error + (string \<rightharpoonup> 'f dval) \<times> nat" where
  "data_collecting ops cls exprs mapping vpoints' =
     bindE (dc_normalize vpoints') (dc_collect ops cls exprs mapping)"

section \<open>Expression parser and solver entry (tinycadlib.pyx)\<close>

text \<open>\<^verbatim>\<open>x, y = data_dict[k]\<close> needs a coordinate tuple; passing \<^verbatim>\<open>data_dict[k]\<close> as a
  \<^verbatim>\<open>double\<close> argument needs a scalar.\<close>

definition dd_coord :: "(string \<rightharpoonup> 'f dval) \<Rightarrow> sym \<Rightarrow> error + 'f Coordinate" where
  "dd_coord data_dict s =
     (case data_dict (symbol_str s) of
        None \<Rightarrow> Inl KeyError
      | Some (Coord p) \<Rightarrow> Inr p
      | Some (Scalar d) \<Rightarrow> Inl TypeError)"

definition dd_scalar :: "(string \<rightharpoonup> 'f dval) \<Rightarrow> sym \<Rightarrow> error + 'f" where
  "dd_scalar data_dict s =
     (case data_dict (symbol_str s) of
        None \<Rightarrow> Inl KeyError
      | Some (Scalar d) \<Rightarrow> Inr d
      | Some (Coord p) \<Rightarrow> Inl TypeError)"

text \<open>The body of the loop of \<^verbatim>\<open>expr_parser\<close>: the target symbol and its coordinate are
  computed by the kernel function of the expression's kind and stored.\<close>

definition expr_parser_step ::
  "'f fops \<Rightarrow> (string \<rightharpoonup> 'f dval) \<Rightarrow> Expr \<Rightarrow> error + (string \<rightharpoonup> 'f dval)" where
  "expr_parser_step ops data_dict expr =
     bindE
       (if func expr \<in> {PLA, PLAP} then
          bindE (dd_coord data_dict (c1 expr)) (\<lambda>p1.
            if func expr = PLA then
              bindE (dd_scalar data_dict (v1 expr)) (\<lambda>d0.
              bindE (dd_scalar data_dict (v2 expr)) (\<lambda>a0.
                Inr (c2 expr, plap ops p1 d0 a0 None False)))
            else
              bindE (dd_coord data_dict (c2 expr)) (\<lambda>p2.
              bindE (dd_scalar data_dict (v1 expr)) (\<lambda>d0.
              bindE (dd_scalar data_dict (v2 expr)) (\<lambda>a0.
                Inr (c3 expr, plap ops p1 d0 a0 (Some p2) (op expr))))))
        else if func expr = PLLP then
          bindE (dd_coord data_dict (c1 expr)) (\<lambda>p1.
          bindE (dd_coord data_dict (c2 expr)) (\<lambda>p2.
          bindE (dd_scalar data_dict (v1 expr)) (\<lambda>d0.
          bindE (dd_scalar data_dict (v2 expr)) (\<lambda>d1.
            Inr (c3 expr, pllp ops p1 d0 d1 p2 (op expr))))))
        else if func expr = PLPP then
          bindE (dd_coord data_dict (c1 expr)) (\<lambda>p1.
          bindE (dd_coord data_dict (c2 expr)) (\<lambda>p2.
          bindE (dd_coord data_dict (c3 expr)) (\<lambda>p3.
          bindE (dd_scalar data_dict (v1 expr)) (\<lambda>d0.
            Inr (c4 expr, plpp ops p1 d0 p2 p3 (op expr))))))
        else if func expr = PXY then
          bindE (dd_coord data_dict (c1 expr)) (\<lambda>p1.
          bindE (dd_scalar data_dict (v1 expr)) (\<lambda>dx.
          bindE (dd_scalar data_dict (v2 expr)) (\<lambda>dy.
            Inr (c2 expr, pxy ops p1 dx dy))))
        else Inl (ValueError Unsupported_function))
       (\<lambda>tp. Inr (data_dict(symbol_str (fst tp) \<mapsto> Coord (snd tp))))"

text \<open>
  \<^verbatim>\<open>expr_parser\<close> is declared \<^verbatim>\<open>cpdef void\<close> with no \<^verbatim>\<open>except\<close> clause. With the Cython
  release of the repository (0.29) an exception raised in such a function does not reach
  the caller: it is printed and dropped, and the function returns. So a \<^verbatim>\<open>KeyError\<close>, a
  \<^verbatim>\<open>TypeError\<close> or the \<^verbatim>\<open>ValueError\<close> "unsupported function" of the loop body ends the loop,
  and the caller goes on with the dictionary as the expressions before the failing one
  have filled it.
\<close>

fun expr_parser ::
  "'f fops \<Rightarrow> EStack \<Rightarrow> (string \<rightharpoonup> 'f dval) \<Rightarrow> (string \<rightharpoonup> 'f dval)" where
  "expr_parser ops [] data_dict = data_dict"
| "expr_parser ops (expr # exprs) data_dict =
     (case expr_parser_step ops data_dict expr of
        Inl e \<Rightarrow> data_dict
      | Inr data_dict' \<Rightarrow> expr_parser ops exprs data_dict')"

text \<open>
  The external numeric solver \<^verbatim>\<open>vpoint_solving(vpoints, {}, p_data_dict)\<close> is a parameter.
  It gets the joints and the dictionary \<^verbatim>\<open>p_data_dict\<close> (joint index to value, joint
  tuple to length; modelled as the item list in insertion order), and either raises or
  returns a list or \<^verbatim>\<open>None\<close>. An entry of the returned list, as an entry of the result of
  \<^verbatim>\<open>expr_solving\<close>, is one coordinate or a tuple of coordinates.
\<close>

datatype pkey = PInt nat | PTuple "nat list"

datatype 'f solved = Single "'f Coordinate" | Multi "'f Coordinate list"

type_synonym 'f solver =
  "'f VPoint list \<Rightarrow> (pkey \<times> 'f dval) list \<Rightarrow> error + 'f solved list option"

text \<open>The check of the input pairs, lines 485 to 495.\<close>

definition driver_check ::
  "'f VPoint_methods \<Rightarrow> (string \<rightharpoonup> nat) \<Rightarrow> 'f VPoint list \<Rightarrow> unit \<Rightarrow> Expr \<Rightarrow> error + unit" where
  "driver_check cls mapping_r vpoints u expr =
     (if func expr \<in> {PLA, PLAP} then
        bindE (lookup_err mapping_r
                 (symbol_str (if func expr = PLA then c2 expr else c3 expr))) (\<lambda>target.
        bindE (lookup_err mapping_r (symbol_str (c1 expr))) (\<lambda>b.
        bindE (nth_err vpoints b) (\<lambda>vb.
          if grounded cls vb then
            bindE (nth_err vpoints target) (\<lambda>vt.
              if grounded cls vt then Inl (ValueError Wrong_driver) else Inr ())
          else Inr ())))
      else Inr ())"

text \<open>The dictionary comprehension \<^verbatim>\<open>{v: k for k, v in mapping.items() if type(k) == int}\<close>.\<close>

definition mapping_reverse :: "'f mentry list \<Rightarrow> (string \<rightharpoonup> nat)" where
  "mapping_reverse mapping =
     foldl (\<lambda>m entry. case entry of Name k v \<Rightarrow> m(v \<mapsto> k) | Known k v \<Rightarrow> m | Length k v \<Rightarrow> m)
       Map.empty mapping"

text \<open>The angles, lines 500 and 501.\<close>

definition inject_angles ::
  "'f fops \<Rightarrow> 'f list \<Rightarrow> (string \<rightharpoonup> 'f dval) \<Rightarrow> (string \<rightharpoonup> 'f dval)" where
  "inject_angles ops angles data_dict =
     foldl (\<lambda>dd ia. dd(''a'' @ str_nat (fst ia) \<mapsto> Scalar (radians ops (snd ia))))
       data_dict (enumerate_list angles)"

text \<open>The known points, lines 511 to 516, on the state \<open>(p_data_dict, has_not_solved)\<close>.\<close>

definition known_point ::
  "'f mentry list \<Rightarrow> (string \<rightharpoonup> 'f dval) \<Rightarrow> (pkey \<times> 'f dval) list \<times> bool \<Rightarrow> nat \<Rightarrow>
   error + (pkey \<times> 'f dval) list \<times> bool" where
  "known_point mapping data_dict s i =
     (case mapping_name mapping i of
        None \<Rightarrow> Inl KeyError
      | Some k \<Rightarrow>
          (case data_dict k of
             Some v \<Rightarrow> Inr (AList.update (PInt i) v (fst s), snd s)
           | None \<Rightarrow> Inr (fst s, True)))"

text \<open>The specified link lengths, lines 523 to 525.\<close>

definition add_lengths :: "'f mentry list \<Rightarrow> (pkey \<times> 'f dval) list \<Rightarrow> (pkey \<times> 'f dval) list" where
  "add_lengths mapping p_data_dict =
     foldl (\<lambda>p entry. case entry of
                         Length k v \<Rightarrow> AList.update (PTuple k) (Scalar v) p
                       | Name k v \<Rightarrow> p
                       | Known k v \<Rightarrow> p)
       p_data_dict mapping"

text \<open>The call of the solver inside \<^verbatim>\<open>try\<close>: a \<^verbatim>\<open>ValueError\<close> is replaced by "result
  contains failure from sketch solve"; any other exception passes through.\<close>

definition call_solver ::
  "'f solver \<Rightarrow> 'f VPoint list \<Rightarrow> (pkey \<times> 'f dval) list \<Rightarrow> error + 'f solved list option" where
  "call_solver solver vpoints p_data_dict =
     (case solver vpoints p_data_dict of
        Inl (ValueError m) \<Rightarrow> Inl (ValueError Sketch_failure)
      | Inl KeyError \<Rightarrow> Inl KeyError
      | Inl IndexError \<Rightarrow> Inl IndexError
      | Inl TypeError \<Rightarrow> Inl TypeError
      | Inr r \<Rightarrow> Inr r)"

text \<open>
  Lines 464 to 504 of \<^verbatim>\<open>expr_solving\<close>: the data dictionary after the input count, the
  check of the input pairs, the angles and the parser.
\<close>

definition expr_solving_dict ::
  "'f fops \<Rightarrow> 'f VPoint_methods \<Rightarrow> EStack \<Rightarrow> 'f mentry list \<Rightarrow> 'f VPoint list \<Rightarrow>
   'f list \<Rightarrow> error + (string \<rightharpoonup> 'f dval)" where
  "expr_solving_dict ops cls exprs mapping vpoints angles =
     bindE (data_collecting ops cls exprs mapping vpoints) (\<lambda>dc.
       let dof_input = snd dc; dof = vpoint_dof vpoints in
       if int dof_input > dof then Inl (ValueError (Wrong_input_count dof_input dof))
       else
         bindE (foldE (driver_check cls (mapping_reverse mapping) vpoints) () exprs) (\<lambda>u.
           Inr (if exprs \<noteq> [] then expr_parser ops exprs (inject_angles ops angles (fst dc))
                else inject_angles ops angles (fst dc))))"

text \<open>
  Lines 506 to 525: the dictionary \<^verbatim>\<open>p_data_dict\<close> that the solver would get, and the flag
  \<^verbatim>\<open>has_not_solved\<close>. The lengths are added only when the flag is set; the dictionary
  is read only then.
\<close>

definition solver_input ::
  "'f mentry list \<Rightarrow> (string \<rightharpoonup> 'f dval) \<Rightarrow> 'f VPoint list \<Rightarrow>
   error + (pkey \<times> 'f dval) list \<times> bool" where
  "solver_input mapping data_dict vpoints =
     bindE (foldE (known_point mapping data_dict) ([], False) [0 ..< length vpoints]) (\<lambda>kp.
       Inr (if snd kp then add_lengths mapping (fst kp) else fst kp, snd kp))"

text \<open>
  Everything \<^verbatim>\<open>expr_solving\<close> does before it assembles the result (lines 464 to 531):
  the data dictionary after the parser, and \<^verbatim>\<open>solved_bfgs\<close> (\<open>None\<close> when the solver
  was not called or returned \<^verbatim>\<open>None\<close>).
\<close>

definition expr_solving_data ::
  "'f fops \<Rightarrow> 'f VPoint_methods \<Rightarrow> 'f solver \<Rightarrow> EStack \<Rightarrow> 'f mentry list \<Rightarrow> 'f VPoint list \<Rightarrow>
   'f list \<Rightarrow> error + (string \<rightharpoonup> 'f dval) \<times> 'f solved list option" where
  "expr_solving_data ops cls solver exprs mapping vpoints angles =
     bindE (expr_solving_dict ops cls exprs mapping vpoints angles) (\<lambda>data_dict.
     bindE (solver_input mapping data_dict vpoints) (\<lambda>inp.
     bindE (if snd inp then call_solver solver vpoints (fst inp) else Inr None) (\<lambda>solved_bfgs.
       Inr (data_dict, solved_bfgs))))"

text \<open>The body of the last loop, lines 538 to 559, for joint \<open>i\<close>: the entry appended to
  \<^verbatim>\<open>solved_points\<close>, or the exception.\<close>

definition bfgs_pair :: "'f solved \<Rightarrow> error + 'f solved" where
  "bfgs_pair s =
     (case s of
        Single p \<Rightarrow> Inr (Single p)
      | Multi cs \<Rightarrow>
          bindE (nth_err cs 0) (\<lambda>a. bindE (nth_err cs 1) (\<lambda>b. Inr (Multi [a, b]))))"

definition solved_point ::
  "'f fops \<Rightarrow> 'f mentry list \<Rightarrow> (string \<rightharpoonup> 'f dval) \<Rightarrow> 'f solved list option \<Rightarrow>
   nat \<Rightarrow> 'f VPoint \<Rightarrow> error + 'f solved" where
  "solved_point ops mapping data_dict solved_bfgs i vpoint =
     (case mapping_name mapping i of
        None \<Rightarrow> Inl KeyError
      | Some k \<Rightarrow>
          (case data_dict k of
             Some (Scalar d) \<Rightarrow> Inl TypeError
           | Some (Coord p) \<Rightarrow>
               if f_isnan ops (fst p) then Inl (ValueError (Point_failure i))
               else if type vpoint = VJoint_R then Inr (Single p)
               else bindE (nth_err (c vpoint) 0) (\<lambda>p0. Inr (Multi [p0, p]))
           | None \<Rightarrow>
               (case solved_bfgs of
                  Some sol \<Rightarrow>
                    if type vpoint = VJoint_R then nth_err sol i
                    else bindE (nth_err sol i) bfgs_pair
                | None \<Rightarrow>
                    if type vpoint = VJoint_R
                    then bindE (nth_err (c vpoint) 0) (\<lambda>p0. Inr (Single p0))
                    else Inr (Multi (c vpoint)))))"

definition solved_points ::
  "'f fops \<Rightarrow> 'f mentry list \<Rightarrow> (string \<rightharpoonup> 'f dval) \<Rightarrow> 'f solved list option \<Rightarrow>
   'f VPoint list \<Rightarrow> error + 'f solved list" where
  "solved_points ops mapping data_dict solved_bfgs vpoints =
     foldE (\<lambda>acc iv.
              bindE (solved_point ops mapping data_dict solved_bfgs (fst iv) (snd iv))
                (\<lambda>p. Inr (acc @ [p])))
       [] (enumerate_list vpoints)"

definition expr_solving ::
  "'f fops \<Rightarrow> 'f VPoint_methods \<Rightarrow> 'f solver \<Rightarrow> EStack \<Rightarrow> 'f mentry list \<Rightarrow> 'f VPoint list \<Rightarrow>
   'f list \<Rightarrow> error + 'f solved list" where
  "expr_solving ops cls solver exprs mapping vpoints angles =
     bindE (expr_solving_data ops cls solver exprs mapping vpoints angles) (\<lambda>ds.
       solved_points ops mapping (fst ds) (snd ds) vpoints)"



definition nan_entry ::
  "'f fops \<Rightarrow> 'f mentry list \<Rightarrow> (string \<rightharpoonup> 'f dval) \<Rightarrow> nat \<Rightarrow> bool" where
  "nan_entry ops mapping data_dict i =
     (case mapping_name mapping i of
        None \<Rightarrow> False
      | Some k \<Rightarrow>
          (case data_dict k of
             Some (Coord p) \<Rightarrow> f_isnan ops (fst p)
           | Some (Scalar d) \<Rightarrow> False
           | None \<Rightarrow> False))"

definition joint_shaped ::
  "'f mentry list \<Rightarrow> (string \<rightharpoonup> 'f dval) \<Rightarrow> nat \<Rightarrow> 'f VPoint \<Rightarrow> bool" where
  "joint_shaped mapping data_dict i v \<longleftrightarrow>
     c v \<noteq> [] \<and>
     (case mapping_name mapping i of
        None \<Rightarrow> True
      | Some k \<Rightarrow>
          (case data_dict k of
             Some (Scalar d) \<Rightarrow> False
           | Some (Coord p) \<Rightarrow> True
           | None \<Rightarrow> True))"

definition joints_shaped ::
  "'f mentry list \<Rightarrow> (string \<rightharpoonup> 'f dval) \<Rightarrow> 'f VPoint list \<Rightarrow> bool" where
  "joints_shaped mapping data_dict vpoints =
     list_all (\<lambda>iv. joint_shaped mapping data_dict (fst iv) (snd iv)) (enumerate_list vpoints)"



section \<open>Expression synthesis (triangulation.pyx)\<close>

text \<open>
  The dictionary \<^verbatim>\<open>status\<close> (joint index to flag) is the list of its items; reading a
  key that is missing raises \<^verbatim>\<open>KeyError\<close>, and \<^verbatim>\<open>status[k] = v\<close> replaces the value of
  a present key or appends a new item. A Python \<^verbatim>\<open>set\<close> of joint indices is the list of its
  elements without repetition; the order in which \<^verbatim>\<open>for f in s\<close> visits them is not
  specified by Python, so it is a parameter \<open>set_iter\<close> of the model.
\<close>

definition status_get :: "(nat \<times> bool) list \<Rightarrow> nat \<Rightarrow> error + bool" where
  "status_get status k = (case map_of status k of None \<Rightarrow> Inl KeyError | Some b \<Rightarrow> Inr b)"

definition status_keys :: "(nat \<times> bool) list \<Rightarrow> nat set" where
  "status_keys status = fst ` set status"

definition is_all_lock :: "(nat \<times> bool) list \<Rightarrow> bool" where
  "is_all_lock status = list_all (\<lambda>kv. snd kv) status"


definition pyset_add :: "nat list \<Rightarrow> nat \<Rightarrow> nat list" where
  "pyset_add ns n = (if n \<in> set ns then ns else ns @ [n])"

definition clockwise :: "'f fops \<Rightarrow> 'f Coordinate \<Rightarrow> 'f Coordinate \<Rightarrow> 'f Coordinate \<Rightarrow> bool" where
  "clockwise ops p1 p2 p3 =
     (let val = f_sub ops
                  (f_mul ops (f_sub ops (snd p2) (snd p1)) (f_sub ops (fst p3) (fst p2)))
                  (f_mul ops (f_sub ops (fst p2) (fst p1)) (f_sub ops (snd p3) (snd p2)))
      in f_eq ops val (f_lit ops 0) \<or> f_gt ops val (f_lit ops 0))"

text \<open>The first loop of \<^verbatim>\<open>t_config\<close>, lines 269 to 282, for one joint, on the state
  \<open>(status, vlinks)\<close>.\<close>

definition tc_init_joint ::
  "(nat \<times> bool) list \<times> (string \<rightharpoonup> nat list) \<Rightarrow> nat \<times> 'f VPoint \<Rightarrow>
   (nat \<times> bool) list \<times> (string \<rightharpoonup> nat list)" where
  "tc_init_joint sv nv =
     (case sv of (status, vlinks) \<Rightarrow>
      case nv of (node, vpoint) \<Rightarrow>
        if links vpoint \<noteq> [] then
          foldl (\<lambda>sv' link.
                   (if link = VLink_FRAME \<and> type vpoint = VJoint_R
                    then AList.update node True (fst sv') else fst sv',
                    case snd sv' link of
                      None \<Rightarrow> (snd sv')(link \<mapsto> [node])
                    | Some ns \<Rightarrow> (snd sv')(link \<mapsto> pyset_add ns node)))
            (AList.update node False status, vlinks) (links vpoint)
        else (AList.update node True (AList.update node False status), vlinks))"

text \<open>The replacement of the friends of the grounded P joints by RP joints, lines 287 to
  307. The set \<^verbatim>\<open>links\<close> of the source is written and never read, and is left out. The
  indices of the reads \<^verbatim>\<open>vpoints[base]\<close> and \<^verbatim>\<open>vpoints[node]\<close> come from
  \<^verbatim>\<open>range(len(vpoints))\<close> and from the sets of \<^verbatim>\<open>vlinks\<close>, which hold joint indices; the
  lemma \<open>tc_normalize_total\<close> shows that no read is out of range and no lookup fails when
  the iteration over a set visits elements of the set, so the \<open>Inl\<close> results below are
  never produced.\<close>

definition tc_replace ::
  "'f VPoint \<Rightarrow> nat \<Rightarrow> 'f VPoint list \<Rightarrow> nat \<Rightarrow> error + 'f VPoint list" where
  "tc_replace vpoint base vpoints node =
     bindE (nth_err vpoints node) (\<lambda>vpoint'.
       if node = base \<or> type vpoint' \<noteq> VJoint_R then Inr vpoints
       else
         bindE (nth_err (links vpoint) 0) (\<lambda>l0.
           Inr (vpoints[node :=
                  c_slider_joint
                    ([l0] @ filter (\<lambda>l. l \<notin> set (links vpoint)) (links vpoint'))
                    VJoint_RP (angle vpoint) (vpoint_x vpoint') (vpoint_y vpoint')])))"

definition tc_normalize_base ::
  "'f VPoint_methods \<Rightarrow> (nat list \<Rightarrow> nat list) \<Rightarrow> (string \<rightharpoonup> nat list) \<Rightarrow>
   'f VPoint list \<Rightarrow> nat \<Rightarrow> error + 'f VPoint list" where
  "tc_normalize_base cls set_iter vlinks vpoints base =
     bindE (nth_err vpoints base) (\<lambda>vpoint.
       if type vpoint \<noteq> VJoint_P \<or> \<not> grounded cls vpoint then Inr vpoints
       else
         foldE (\<lambda>vps link.
                  bindE (lookup_err vlinks link) (\<lambda>nodes.
                    foldE (tc_replace vpoint base) vps (set_iter nodes)))
           vpoints (drop 1 (links vpoint)))"

definition tc_normalize ::
  "'f VPoint_methods \<Rightarrow> (nat list \<Rightarrow> nat list) \<Rightarrow> 'f VPoint list \<Rightarrow> error + 'f VPoint list" where
  "tc_normalize cls set_iter vpoints =
     foldE (tc_normalize_base cls set_iter
              (snd (foldl tc_init_joint ([], Map.empty) (enumerate_list vpoints))))
       vpoints [0 ..< length vpoints]"

text \<open>The array \<^verbatim>\<open>pos\<close>, lines 309 to 313.\<close>

definition tc_pos :: "'f VPoint list \<Rightarrow> error + 'f Coordinate list" where
  "tc_pos vpoints =
     foldE (\<lambda>pos vpoint.
              bindE (nth_err (c vpoint) (if type vpoint = VJoint_R then 0 else 1))
                (\<lambda>p. Inr (pos @ [p])))
       [] vpoints"

text \<open>
  \<^verbatim>\<open>t_config\<close> is compiled with \<^verbatim>\<open>boundscheck(False)\<close> and \<^verbatim>\<open>wraparound(False)\<close>, and
  \<^verbatim>\<open>vpoints\<close> is a list indexed by the C integer \<^verbatim>\<open>node\<close>: the read \<^verbatim>\<open>vpoints[node]\<close> of the
  main loop is not checked. With \<^verbatim>\<open>node\<close> past the end of the list it raises no
  \<^verbatim>\<open>IndexError\<close>; it reads the memory behind the items of the list, and what the call does
  from there on is not defined. So a call fails with an exception or in such a read, where
  the model stops.
\<close>

datatype failure = Exception error | Unchecked_read

text \<open>
  The variables of the main loop. \<open>tc_exit\<close> records how the loop was left before its
  condition failed: by \<^verbatim>\<open>break\<close> or by a failure.
\<close>

datatype loop_exit = Break | Failed failure

record tc_state =
  tc_node :: nat
  tc_skip_times :: nat
  tc_status :: "(nat \<times> bool) list"
  tc_exprs :: EStack
  tc_link_symbol :: nat
  tc_angle_symbol :: nat
  tc_exit :: "loop_exit option"

text \<open>What the main loop reads and never writes: the arithmetic, the methods of the
  joints, the iteration order of sets, the joint list after the replacement, the
  dictionary \<^verbatim>\<open>vlinks\<close>, \<^verbatim>\<open>pos\<close>, \<^verbatim>\<open>inputs\<close>, and \<^verbatim>\<open>around\<close>.\<close>

record 'f tc_env =
  e_ops :: "'f fops"
  e_cls :: "'f VPoint_methods"
  e_set_iter :: "nat list \<Rightarrow> nat list"
  e_vpoints :: "'f VPoint list"
  e_vlinks :: "string \<rightharpoonup> nat list"
  e_pos :: "'f Coordinate list"
  e_inputs :: "(nat \<times> nat) list"
  e_around :: nat

text \<open>The loop over the input pairs, lines 318 to 328.\<close>

definition tc_input :: "tc_state \<Rightarrow> nat \<times> nat \<Rightarrow> error + tc_state" where
  "tc_input s bn =
     bindE (status_get (tc_status s) (fst bn)) (\<lambda>b.
       if b then
         Inr (s\<lparr>tc_exprs := add_pla (tc_exprs s) (P_LABEL, fst bn) (L_LABEL, tc_link_symbol s)
                              (A_LABEL, tc_angle_symbol s) (P_LABEL, snd bn),
                tc_status := AList.update (snd bn) True (tc_status s),
                tc_link_symbol := tc_link_symbol s + 1,
                tc_angle_symbol := tc_angle_symbol s + 1\<rparr>)
       else Inr s)"

text \<open>\<^verbatim>\<open>_get_reliable_friend\<close>: the first two solved joints other than \<open>node\<close> found on the
  links of \<open>node\<close> that have at least two joints. The result is \<open>Some (fa, fb)\<close> when the
  source returns \<^verbatim>\<open>True, fa, fb\<close> and \<open>None\<close> when it returns \<^verbatim>\<open>False\<close> (its callers read
  \<^verbatim>\<open>fa\<close> and \<^verbatim>\<open>fb\<close> only after \<^verbatim>\<open>True\<close>). The scan of one link returns \<open>Inr (fa, fb)\<close>
  when it finds the second friend, and otherwise \<open>Inl fa\<close> with the first friend found so
  far (\<open>None\<close> is the source's \<^verbatim>\<open>-1\<close>).\<close>

fun reliable_nodes ::
  "(nat \<times> bool) list \<Rightarrow> nat \<Rightarrow> nat list \<Rightarrow> nat option \<Rightarrow> error + (nat option + nat \<times> nat)" where
  "reliable_nodes status node [] fa = Inr (Inl fa)"
| "reliable_nodes status node (f # fs) fa =
     (case status_get status f of
        Inl e \<Rightarrow> Inl e
      | Inr b \<Rightarrow>
          if b \<and> f \<noteq> node then
            (case fa of
               None \<Rightarrow> reliable_nodes status node fs (Some f)
             | Some a \<Rightarrow> Inr (Inr (a, f)))
          else reliable_nodes status node fs fa)"

fun reliable_links ::
  "(nat list \<Rightarrow> nat list) \<Rightarrow> (string \<rightharpoonup> nat list) \<Rightarrow> (nat \<times> bool) list \<Rightarrow> nat \<Rightarrow>
   string list \<Rightarrow> nat option \<Rightarrow> error + (nat \<times> nat) option" where
  "reliable_links set_iter vlinks status node [] fa = Inr None"
| "reliable_links set_iter vlinks status node (link # rest) fa =
     (case lookup_err vlinks link of
        Inl e \<Rightarrow> Inl e
      | Inr ns \<Rightarrow>
          if length ns < 2 then reliable_links set_iter vlinks status node rest fa
          else
            (case reliable_nodes status node (set_iter ns) fa of
               Inl e \<Rightarrow> Inl e
             | Inr (Inr ab) \<Rightarrow> Inr (Some ab)
             | Inr (Inl fa') \<Rightarrow> reliable_links set_iter vlinks status node rest fa'))"

definition get_reliable_friend ::
  "'f tc_env \<Rightarrow> (nat \<times> bool) list \<Rightarrow> nat \<Rightarrow> error + (nat \<times> nat) option" where
  "get_reliable_friend env status node =
     bindE (nth_err (e_vpoints env) node) (\<lambda>vpoint.
       reliable_links (e_set_iter env) (e_vlinks env) status node (links vpoint) None)"

text \<open>\<^verbatim>\<open>_get_not_base_friend\<close>: the first solved joint on the second link of \<open>node\<close>.\<close>

fun first_solved :: "(nat \<times> bool) list \<Rightarrow> nat list \<Rightarrow> error + nat option" where
  "first_solved status [] = Inr None"
| "first_solved status (f # fs) =
     (case status_get status f of
        Inl e \<Rightarrow> Inl e
      | Inr b \<Rightarrow> if b then Inr (Some f) else first_solved status fs)"

definition get_not_base_friend ::
  "'f tc_env \<Rightarrow> (nat \<times> bool) list \<Rightarrow> nat \<Rightarrow> error + nat option" where
  "get_not_base_friend env status node =
     bindE (nth_err (e_vpoints env) node) (\<lambda>vpoint.
       if pin_grounded (e_cls env) vpoint \<or> \<not> grounded (e_cls env) vpoint
          \<or> has_offset (e_cls env) vpoint \<or> length (links vpoint) < 2
       then Inr None
       else
         bindE (nth_err (links vpoint) 1) (\<lambda>l1.
         bindE (lookup_err (e_vlinks env) l1) (\<lambda>ns.
           first_solved status (e_set_iter env ns))))"

text \<open>\<^verbatim>\<open>_get_base_friend\<close>: the first two joints on the first link of \<open>node\<close>.\<close>

definition get_base_friend :: "'f tc_env \<Rightarrow> nat \<Rightarrow> error + (nat \<times> nat) option" where
  "get_base_friend env node =
     bindE (nth_err (e_vpoints env) node) (\<lambda>vpoint.
       if length (links vpoint) < 1 then Inr None
       else
         bindE (nth_err (links vpoint) 0) (\<lambda>l0.
         bindE (lookup_err (e_vlinks env) l0) (\<lambda>ns.
           case e_set_iter env ns of
             a # b # rest \<Rightarrow> Inr (Some (a, b))
           | [a] \<Rightarrow> Inr None
           | [] \<Rightarrow> Inr None)))"

text \<open>\<^verbatim>\<open>_get_input_base\<close>: the base of the first input pair whose target is \<open>node\<close>;
  \<open>None\<close> is the source's \<^verbatim>\<open>-1\<close>.\<close>

definition get_input_base :: "nat \<Rightarrow> (nat \<times> nat) list \<Rightarrow> nat option" where
  "get_input_base node inputs = map_option fst (find (\<lambda>bn. node = snd bn) inputs)"

definition skip :: "tc_state \<Rightarrow> tc_state" where
  "skip s = s\<lparr>tc_skip_times := tc_skip_times s + 1\<rparr>"

text \<open>The branch of the main loop for a revolute joint, lines 351 to 385. With no input
  pair for \<open>node\<close> the source reads \<^verbatim>\<open>status[-1]\<close>, a missing key.\<close>

definition tc_revolute :: "'f tc_env \<Rightarrow> tc_state \<Rightarrow> error + tc_state" where
  "tc_revolute env s =
     (let node = tc_node s in
      if node \<in> snd ` set (e_inputs env) then
        (case get_input_base node (e_inputs env) of
           None \<Rightarrow> Inl KeyError
         | Some base \<Rightarrow>
             bindE (status_get (tc_status s) base) (\<lambda>b.
               if b then
                 Inr (s\<lparr>tc_exprs := add_pla (tc_exprs s) (P_LABEL, base)
                                      (L_LABEL, tc_link_symbol s) (A_LABEL, tc_angle_symbol s)
                                      (P_LABEL, node),
                        tc_status := AList.update node True (tc_status s),
                        tc_link_symbol := tc_link_symbol s + 1,
                        tc_angle_symbol := tc_angle_symbol s + 1\<rparr>)
               else Inr (skip s)))
      else
        bindE (get_reliable_friend env (tc_status s) node) (\<lambda>r.
          case r of
            None \<Rightarrow> Inr (skip s)
          | Some (fa, fb) \<Rightarrow>
              bindE (nth_err (e_pos env) fa) (\<lambda>pa.
              bindE (nth_err (e_pos env) node) (\<lambda>pn.
              bindE (nth_err (e_pos env) fb) (\<lambda>pb.
                let ab = (if \<not> clockwise (e_ops env) pa pn pb then (fb, fa) else (fa, fb)) in
                Inr (s\<lparr>tc_exprs := add_pllp (tc_exprs s) (P_LABEL, fst ab)
                                     (L_LABEL, tc_link_symbol s) (L_LABEL, tc_link_symbol s + 1)
                                     (P_LABEL, snd ab) (P_LABEL, node),
                       tc_status := AList.update node True (tc_status s),
                       tc_link_symbol := tc_link_symbol s + 2,
                       tc_skip_times := 0\<rparr>))))))"

text \<open>The branch for a prismatic joint, lines 386 to 413; \<open>tc_friend\<close> is the body of its
  inner loop for one joint \<open>fb\<close>.\<close>

definition tc_friend :: "nat \<Rightarrow> tc_state \<Rightarrow> nat \<Rightarrow> error + tc_state" where
  "tc_friend node s fb =
     bindE (status_get (tc_status s) fb) (\<lambda>b.
       if b then Inr s
       else
         Inr (s\<lparr>tc_exprs := add_pxy (tc_exprs s) (P_LABEL, node) (L_LABEL, tc_link_symbol s)
                              (L_LABEL, tc_link_symbol s + 1) (P_LABEL, fb),
                tc_status := AList.update fb True (tc_status s),
                tc_link_symbol := tc_link_symbol s + 2\<rparr>))"

definition tc_prismatic :: "'f tc_env \<Rightarrow> tc_state \<Rightarrow> error + tc_state" where
  "tc_prismatic env s =
     (let node = tc_node s in
      bindE (get_not_base_friend env (tc_status s) node) (\<lambda>r.
        case r of
          None \<Rightarrow> Inr (skip s)
        | Some fa \<Rightarrow>
            bindE (nth_err (e_vpoints env) node) (\<lambda>vpoint.
            bindE (foldE (\<lambda>s' link.
                            bindE (lookup_err (e_vlinks env) link) (\<lambda>ns.
                              foldE (tc_friend node) s' (e_set_iter env ns)))
                     (s\<lparr>tc_exprs := add_pxy (tc_exprs s) (P_LABEL, fa)
                                       (L_LABEL, tc_link_symbol s)
                                       (L_LABEL, tc_link_symbol s + 1) (P_LABEL, node),
                        tc_status := AList.update node True (tc_status s),
                        tc_link_symbol := tc_link_symbol s + 2\<rparr>)
                     (drop 1 (links vpoint))) (\<lambda>s'.
              Inr (s'\<lparr>tc_skip_times := 0\<rparr>)))))"

text \<open>The branch for an RP joint, lines 414 to 469.\<close>

definition tc_slider :: "'f tc_env \<Rightarrow> tc_state \<Rightarrow> error + tc_state" where
  "tc_slider env s =
     (let node = tc_node s; ops = e_ops env in
      bindE (nth_err (e_pos env) node) (\<lambda>pn.
      bindE (nth_err (e_vpoints env) node) (\<lambda>vpoint.
        let angle' = f_mul ops (f_div ops (angle vpoint) (f_lit ops 180)) (f_pi ops);
            tmp = (f_add ops (fst pn) (f_cos ops angle'), f_add ops (snd pn) (f_sin ops angle'))
        in
        bindE (get_not_base_friend env (tc_status s) node) (\<lambda>r.
        bindE (get_base_friend env node) (\<lambda>r2.
          case r of
            None \<Rightarrow> Inr (skip s)
          | Some fa \<Rightarrow>
              (case r2 of
                 None \<Rightarrow> Inr (skip s)
               | Some (fb0, fd0) \<Rightarrow>
                   bindE
                     (if \<not> grounded (e_cls env) vpoint then
                        bindE (nth_err (e_pos env) fb0) (\<lambda>pb.
                        bindE (nth_err (e_pos env) fd0) (\<lambda>pd.
                          let bd = (if \<not> clockwise ops pb tmp pd then (fd0, fb0) else (fb0, fd0)) in
                          Inr (fst bd,
                               add_pllp (tc_exprs s) (P_LABEL, fst bd)
                                 (L_LABEL, tc_link_symbol s) (L_LABEL, tc_link_symbol s + 1)
                                 (P_LABEL, snd bd) (P_LABEL, node),
                               tc_link_symbol s + 2)))
                      else Inr (fb0, tc_exprs s, tc_link_symbol s)) (\<lambda>t.
                   case t of (fb, exprs1, ls) \<Rightarrow>
                   bindE (nth_err (e_pos env) fb) (\<lambda>pb.
                   bindE (nth_err (e_pos env) node) (\<lambda>pc.
                     let bc = (if \<not> clockwise ops pb tmp pc then (node, fb) else (fb, node));
                         exprs2 = add_pllp exprs1 (P_LABEL, fst bc) (L_LABEL, ls)
                                    (L_LABEL, ls + 1) (P_LABEL, snd bc) (S_LABEL, node)
                     in
                     bindE (nth_err (e_pos env) fa) (\<lambda>pa.
                       Inr (s\<lparr>tc_exprs :=
                                add_plpp exprs2 (P_LABEL, fa) (L_LABEL, ls + 2) (P_LABEL, node)
                                  (S_LABEL, node) (P_LABEL, node)
                                  (f_gt ops (f_sub ops (fst pa) (fst pn)) (f_lit ops 0)
                                   \<noteq> f_gt ops (angle vpoint) (f_lit ops 90)),
                              tc_status := AList.update node True (tc_status s),
                              tc_link_symbol := ls + 3,
                              tc_skip_times := 0\<rparr>)))))))))))"

text \<open>
  One iteration of the \<^verbatim>\<open>while\<close> loop, lines 340 to 470. The only test before the read
  \<^verbatim>\<open>vpoints[node]\<close> is that \<^verbatim>\<open>node\<close> is a key of \<^verbatim>\<open>status\<close> whose flag is false; when
  \<^verbatim>\<open>node\<close> is past the end of the joint list the iteration fails in the unchecked read.
  The three branches return \<open>Inl\<close> where a lookup of theirs or of a helper function has no
  value (a helper function is a \<^verbatim>\<open>cdef\<close> function with a C tuple as result and no
  \<^verbatim>\<open>except\<close> clause, so an exception raised in it would be printed and dropped); the
  lemmas \<open>tc_prepare_wf\<close> and \<open>tc_step_no_exception\<close> show that the main loop never gets
  there.
\<close>

definition tc_step :: "'f tc_env \<Rightarrow> tc_state \<Rightarrow> tc_state" where
  "tc_step env s =
     (if tc_node s \<notin> status_keys (tc_status s) then s\<lparr>tc_node := 0\<rparr>
      else if tc_skip_times s \<ge> e_around env then s\<lparr>tc_exit := Some Break\<rparr>
      else
        (case status_get (tc_status s) (tc_node s) of
           Inl e \<Rightarrow> s\<lparr>tc_exit := Some (Failed (Exception e))\<rparr>
         | Inr True \<Rightarrow> s\<lparr>tc_node := tc_node s + 1, tc_skip_times := tc_skip_times s + 1\<rparr>
         | Inr False \<Rightarrow>
             if length (e_vpoints env) \<le> tc_node s
             then s\<lparr>tc_exit := Some (Failed Unchecked_read)\<rparr>
             else
               (case (case type (e_vpoints env ! tc_node s) of
                        VJoint_R \<Rightarrow> tc_revolute env s
                      | VJoint_P \<Rightarrow> tc_prismatic env s
                      | VJoint_RP \<Rightarrow> tc_slider env s) of
                  Inl e \<Rightarrow> s\<lparr>tc_exit := Some (Failed (Exception e))\<rparr>
                | Inr s' \<Rightarrow> s'\<lparr>tc_node := tc_node s' + 1\<rparr>)))"

definition tc_cond :: "tc_state \<Rightarrow> bool" where
  "tc_cond s = (tc_exit s = None \<and> \<not> is_all_lock (tc_status s))"

definition tc_loop :: "'f tc_env \<Rightarrow> tc_state \<Rightarrow> tc_state option" where
  "tc_loop env s = while_option tc_cond (tc_step env) s"

text \<open>The code between the replacement of the joints and the main loop, lines 309 to 337,
  on the joint list \<^verbatim>\<open>vpoints\<close> that the replacement leaves and the pair \<open>sv\<close> of
  \<^verbatim>\<open>status\<close> and \<^verbatim>\<open>vlinks\<close> built by the first loop: the environment of the main loop
  and its first state.\<close>

definition tc_start ::
  "'f fops \<Rightarrow> 'f VPoint_methods \<Rightarrow> (nat list \<Rightarrow> nat list) \<Rightarrow>
   (nat \<times> bool) list \<times> (string \<rightharpoonup> nat list) \<Rightarrow> (nat \<times> nat) list \<Rightarrow> 'f VPoint list \<Rightarrow>
   error + 'f tc_env \<times> tc_state" where
  "tc_start ops cls set_iter sv inputs vpoints =
     bindE (tc_pos vpoints) (\<lambda>pos.
     bindE (foldE tc_input
              \<lparr>tc_node = 0, tc_skip_times = 0, tc_status = fst sv, tc_exprs = [],
               tc_link_symbol = 0, tc_angle_symbol = 0, tc_exit = None\<rparr> inputs) (\<lambda>s.
       Inr (\<lparr>e_ops = ops, e_cls = cls, e_set_iter = set_iter, e_vpoints = vpoints,
             e_vlinks = snd sv, e_pos = pos, e_inputs = inputs,
             e_around = length (tc_status s)\<rparr>, s)))"

text \<open>Everything before the main loop, lines 263 to 337.\<close>

definition tc_prepare ::
  "'f fops \<Rightarrow> 'f VPoint_methods \<Rightarrow> (nat list \<Rightarrow> nat list) \<Rightarrow> 'f VPoint list \<Rightarrow>
   (nat \<times> nat) list \<Rightarrow> (nat \<times> bool) list \<Rightarrow> error + 'f tc_env \<times> tc_state" where
  "tc_prepare ops cls set_iter vpoints' inputs status0 =
     bindE (tc_normalize cls set_iter vpoints')
       (tc_start ops cls set_iter
          (foldl tc_init_joint (status0, Map.empty) (enumerate_list vpoints')) inputs)"

text \<open>The main loop and the \<^verbatim>\<open>return\<close>. The result is \<open>None\<close> when the loop does not
  terminate; otherwise the failure, or the stack together with the dictionary
  \<^verbatim>\<open>status\<close>, which the source updates in place for its caller.\<close>

definition tc_run ::
  "error + 'f tc_env \<times> tc_state \<Rightarrow> (failure + EStack \<times> (nat \<times> bool) list) option" where
  "tc_run prepared =
     (case prepared of
        Inl e \<Rightarrow> Some (Inl (Exception e))
      | Inr es \<Rightarrow>
          (case tc_loop (fst es) (snd es) of
             None \<Rightarrow> None
           | Some s \<Rightarrow>
               (case tc_exit s of
                  Some (Failed e) \<Rightarrow> Some (Inl e)
                | Some Break \<Rightarrow> Some (Inr (tc_exprs s, tc_status s))
                | None \<Rightarrow> Some (Inr (tc_exprs s, tc_status s)))))"

text \<open>\<^verbatim>\<open>t_config(vpoints_, inputs, status)\<close>. \<^verbatim>\<open>None\<close> for \<^verbatim>\<open>inputs\<close> or \<^verbatim>\<open>status\<close> is the
  empty list.\<close>

definition t_config ::
  "'f fops \<Rightarrow> 'f VPoint_methods \<Rightarrow> (nat list \<Rightarrow> nat list) \<Rightarrow> 'f VPoint list \<Rightarrow>
   (nat \<times> nat) list \<Rightarrow> (nat \<times> bool) list \<Rightarrow> (failure + EStack \<times> (nat \<times> bool) list) option" where
  "t_config ops cls set_iter vpoints' inputs status0 =
     (if vpoints' = [] then Some (Inr ([], status0))
      else if inputs = [] then Some (Inr ([], status0))
      else tc_run (tc_prepare ops cls set_iter vpoints' inputs status0))"









section \<open>An instance of the arithmetic, for evaluating examples\<close>

text \<open>
  Exact real arithmetic with one more value: \<open>None\<close> is NaN, and stands for every result
  that is not a real number. Comparisons with NaN are false. The theorems do not depend on
  this instance; the evaluated examples use it.
\<close>

definition lift2 :: "(real \<Rightarrow> real \<Rightarrow> real) \<Rightarrow> real option \<Rightarrow> real option \<Rightarrow> real option" where
  "lift2 f a b = (case a of None \<Rightarrow> None | Some x \<Rightarrow> (case b of None \<Rightarrow> None | Some y \<Rightarrow> Some (f x y)))"

definition cmp2 :: "(real \<Rightarrow> real \<Rightarrow> bool) \<Rightarrow> real option \<Rightarrow> real option \<Rightarrow> bool" where
  "cmp2 f a b = (case a of None \<Rightarrow> False | Some x \<Rightarrow> (case b of None \<Rightarrow> False | Some y \<Rightarrow> f x y))"

definition atan2_real :: "real \<Rightarrow> real \<Rightarrow> real" where
  "atan2_real y x =
     (if x > 0 then arctan (y / x)
      else if x < 0 \<and> y \<ge> 0 then arctan (y / x) + pi
      else if x < 0 then arctan (y / x) - pi
      else if y > 0 then pi / 2
      else if y < 0 then - pi / 2
      else 0)"

definition real_ops :: "real option fops" where
  "real_ops =
     \<lparr>f_lit = (\<lambda>i. Some (of_int i)),
      f_pi = Some pi,
      f_nan = None,
      f_add = lift2 (\<lambda>x y. x + y),
      f_sub = lift2 (\<lambda>x y. x - y),
      f_mul = lift2 (\<lambda>x y. x * y),
      f_div = (\<lambda>a b. if b = Some 0 then None else lift2 (\<lambda>x y. x / y) a b),
      f_abs = map_option abs,
      f_sqrt = (\<lambda>a. case a of None \<Rightarrow> None | Some x \<Rightarrow> if x < 0 then None else Some (sqrt x)),
      f_sin = map_option sin,
      f_cos = map_option cos,
      f_atan2 = lift2 atan2_real,
      f_hypot = lift2 (\<lambda>x y. sqrt (x * x + y * y)),
      f_gt = cmp2 (\<lambda>x y. x > y),
      f_lt = cmp2 (\<lambda>x y. x < y),
      f_eq = cmp2 (\<lambda>x y. x = y),
      f_isnan = (\<lambda>a. a = None)\<rparr>"

text \<open>A crank: joint 0 is a revolute joint on the ground and on link \<open>L1\<close> at \<open>(0, 0)\<close>,
  joint 1 a revolute joint on \<open>L1\<close> at \<open>(1, 0)\<close>; and the joint of the NaN example, on no
  ground link.\<close>

definition crank :: "real option VPoint list" where
  "crank =
     [\<lparr>links = [''ground'', ''L1''], type = VJoint_R, angle = Some 0,
       vpoint_x = Some 0, vpoint_y = Some 0, c = [(Some 0, Some 0)]\<rparr>,
      \<lparr>links = [''L1''], type = VJoint_R, angle = Some 0,
       vpoint_x = Some 1, vpoint_y = Some 0, c = [(Some 1, Some 0)]\<rparr>]"

definition crank_mapping :: "real option mentry list" where
  "crank_mapping = [Name 0 ''P0'', Name 1 ''P1'']"

definition crank_exprs :: EStack where
  "crank_exprs = add_pla [] (P_LABEL, 0) (L_LABEL, 0) (A_LABEL, 0) (P_LABEL, 1)"

definition no_solver :: "real option solver" where
  "no_solver vpoints p_data_dict = Inl (ValueError Solver_failure)"

definition lone_joint :: "real option VPoint list" where
  "lone_joint =
     [\<lparr>links = [''L1''], type = VJoint_R, angle = Some 0,
       vpoint_x = Some 0, vpoint_y = Some 0, c = [(Some 0, Some 0)]\<rparr>]"

definition lone_mapping :: "real option mentry list" where
  "lone_mapping = [Name 0 ''P0'', Known ''P0'' (Coord (None, Some 0))]"

text \<open>Two joints on no ground link. The mapping gives the position of joint 0, with NaN
  or with 0 as its x-component; joint 1 has no closed-form entry, so the solver is called.
  The solver either raises \<^verbatim>\<open>ValueError\<close> (\<open>no_solver\<close>) or answers with a fixed list.\<close>

definition pair_joints :: "real option VPoint list" where
  "pair_joints =
     [\<lparr>links = [''L1''], type = VJoint_R, angle = Some 0,
       vpoint_x = Some 0, vpoint_y = Some 0, c = [(Some 0, Some 0)]\<rparr>,
      \<lparr>links = [''L2''], type = VJoint_R, angle = Some 0,
       vpoint_x = Some 1, vpoint_y = Some 0, c = [(Some 1, Some 0)]\<rparr>]"

definition pair_mapping :: "real option \<Rightarrow> real option mentry list" where
  "pair_mapping x = [Name 0 ''P0'', Name 1 ''P1'', Known ''P0'' (Coord (x, Some 0))]"

definition fixed_solver :: "real option solver" where
  "fixed_solver vpoints p_data_dict = Inr (Some [Single (Some 5, Some 5), Single (Some 1, Some 2)])"


definition crank_exprs2 :: EStack where
  "crank_exprs2 = add_pla crank_exprs (P_LABEL, 0) (L_LABEL, 1) (A_LABEL, 1) (P_LABEL, 1)"


text \<open>
  A four-bar linkage: joints 0 and 3 are revolute joints on the ground, joints 1 and 2
  are the moving joints; the links are \<open>L1\<close> (0, 1), \<open>L2\<close> (1, 2) and \<open>L3\<close> (2, 3).
\<close>

definition rjoint :: "string list \<Rightarrow> real \<Rightarrow> real \<Rightarrow> real option VPoint" where
  "rjoint ls px py =
     \<lparr>links = ls, type = VJoint_R, angle = Some 0, vpoint_x = Some px, vpoint_y = Some py,
      c = [(Some px, Some py)]\<rparr>"

definition fourbar :: "real option VPoint list" where
  "fourbar =
     [rjoint [''ground'', ''L1''] 0 0, rjoint [''L1'', ''L2''] 0 1,
      rjoint [''L2'', ''L3''] 1 1, rjoint [''ground'', ''L3''] 1 0]"

text \<open>
  A linkage whose crank pivot is held by two ground pivots: joints 0 and 3 are on the
  ground; joint 4 is on \<open>L1\<close> with joint 0 and on \<open>L4\<close> with joint 3; the crank \<open>L5\<close> goes
  from joint 4 to joint 2; joint 1 is on \<open>L2\<close> with joint 2 and on \<open>L3\<close> with joint 0. The
  input pair is (4, 2).
\<close>

definition held_crank :: "real option VPoint list" where
  "held_crank =
     [rjoint [''ground'', ''L1'', ''L3''] 0 0, rjoint [''L2'', ''L3''] (-1) 4,
      rjoint [''L5'', ''L2''] 2 5, rjoint [''ground'', ''L4''] 4 0,
      rjoint [''L1'', ''L4'', ''L5''] 2 3]"

section \<open>Binary64 arithmetic, for evaluating the geometry kernel\<close>

text \<open>
  An instance of the arithmetic on the finite doubles: a finite double is the real number
  it stands for (the sign of zero is not kept), and \<open>None\<close> is NaN. \<open>b64\<close> rounds a real
  number to the nearest double, ties to even: the exponent \<open>e\<close> with \<open>2\<^sup>e \<le> |x| < 2\<^sup>e\<^sup>+\<^sup>1\<close>
  is searched from 0 (and is at least -1022, which gives the subnormal numbers), and \<open>x\<close>
  is rounded to a multiple of \<open>2\<^sup>e\<^sup>-\<^sup>5\<^sup>2\<close>. The operations \<^verbatim>\<open>+\<close>, \<^verbatim>\<open>-\<close>, \<^verbatim>\<open>*\<close>, \<^verbatim>\<open>/\<close> and
  \<^verbatim>\<open>sqrt\<close> round the exact result, as IEEE 754 prescribes; \<^verbatim>\<open>sqrt\<close> of a negative number is
  NaN. The functions of \<^verbatim>\<open>libc.math\<close> are taken as correctly rounded; \<^verbatim>\<open>hypot(x, 0)\<close> is
  \<open>|x|\<close>, as in C. The infinities are not modelled: where the IEEE result is an infinity
  (overflow, division by zero) the instance gives \<open>None\<close>. The evaluation below meets none
  of these.
\<close>

definition round_even :: "real \<Rightarrow> int" where
  "round_even x =
     (let f = \<lfloor>x\<rfloor>; r = x - of_int f in
      if r < 1 / 2 then f
      else if r > 1 / 2 then f + 1
      else if even f then f else f + 1)"

fun find_exp :: "nat \<Rightarrow> int \<Rightarrow> real \<Rightarrow> int" where
  "find_exp 0 e x = e"
| "find_exp (Suc n) e x =
     (if \<bar>x\<bar> < 2 powi e then find_exp n (e - 1) x
      else if 2 powi (e + 1) \<le> \<bar>x\<bar> then find_exp n (e + 1) x
      else e)"

definition b64_exp :: "real \<Rightarrow> int" where
  "b64_exp x = max (find_exp 2200 0 x) (- 1022)"

definition b64 :: "real \<Rightarrow> real option" where
  "b64 x =
     (if x = 0 then Some 0
      else
        let q = 2 powi (b64_exp x - 52);
            y = of_int (round_even (x / q)) * q
        in if \<bar>y\<bar> < 2 powi 1024 then Some y else None)"

definition b64_lift :: "(real \<Rightarrow> real) \<Rightarrow> real option \<Rightarrow> real option" where
  "b64_lift f a = (case a of None \<Rightarrow> None | Some x \<Rightarrow> b64 (f x))"

definition b64_lift2 :: "(real \<Rightarrow> real \<Rightarrow> real) \<Rightarrow> real option \<Rightarrow> real option \<Rightarrow> real option" where
  "b64_lift2 f a b =
     (case a of None \<Rightarrow> None | Some x \<Rightarrow> (case b of None \<Rightarrow> None | Some y \<Rightarrow> b64 (f x y)))"

definition b64_ops :: "real option fops" where
  "b64_ops =
     \<lparr>f_lit = (\<lambda>i. b64 (of_int i)),
      f_pi = b64 pi,
      f_nan = None,
      f_add = b64_lift2 (\<lambda>x y. x + y),
      f_sub = b64_lift2 (\<lambda>x y. x - y),
      f_mul = b64_lift2 (\<lambda>x y. x * y),
      f_div = (\<lambda>a b. if b = Some 0 then None else b64_lift2 (\<lambda>x y. x / y) a b),
      f_abs = map_option abs,
      f_sqrt = (\<lambda>a. case a of None \<Rightarrow> None | Some x \<Rightarrow> if x < 0 then None else b64 (sqrt x)),
      f_sin = b64_lift sin,
      f_cos = b64_lift cos,
      f_atan2 = b64_lift2 atan2_real,
      f_hypot = b64_lift2 (\<lambda>x y. sqrt (x * x + y * y)),
      f_gt = cmp2 (\<lambda>x y. x > y),
      f_lt = cmp2 (\<lambda>x y. x < y),
      f_eq = cmp2 (\<lambda>x y. x = y),
      f_isnan = (\<lambda>a. a = None)\<rparr>"

text \<open>Two circles that touch: the centres \<open>(0, 0)\<close> and \<open>(2.6, 0)\<close>, the radii 0.5 and 2.1,
  where 2.1 and 2.6 are the doubles of these literals.\<close>

definition touch_d1 :: "real option" where
  "touch_d1 = b64 (21 / 10)"

definition touch_c2 :: "real option Coordinate" where
  "touch_c2 = (b64 (26 / 10), Some 0)"

section \<open>The joint sequence of the caller: an explicit store\<close>

text \<open>
  To state what a call does to the data of its caller, objects get addresses. A store
  holds the joint objects (\<open>objs\<close>, the address of an object is its index) and the
  sequence objects (\<open>seqs\<close>, each a list of addresses of joints). The caller passes the
  address of its sequence. \<^verbatim>\<open>list(vpoints_)\<close> allocates a new sequence with the same
  elements; \<^verbatim>\<open>vpoints[node] = VPoint.c_slider_joint(...)\<close> allocates a new joint and
  stores its address in the local sequence. The methods of a joint are functions of its
  fields and write nothing. A step returns the exception it raised, if any, and the store
  it leaves.
\<close>

record 'f store =
  objs :: "'f VPoint list"
  seqs :: "nat list list"

definition deref :: "'f store \<Rightarrow> nat \<Rightarrow> 'f VPoint list" where
  "deref st l = map (\<lambda>a. objs st ! a) (seqs st ! l)"

definition list_copy :: "'f store \<Rightarrow> nat \<Rightarrow> 'f store \<times> nat" where
  "list_copy st l = (st\<lparr>seqs := seqs st @ [seqs st ! l]\<rparr>, length (seqs st))"

definition store_get :: "'f store \<Rightarrow> nat \<Rightarrow> nat \<Rightarrow> error + 'f VPoint" where
  "store_get st l node = bindE (nth_err (seqs st ! l) node) (\<lambda>a. nth_err (objs st) a)"

definition store_assign :: "'f store \<Rightarrow> nat \<Rightarrow> nat \<Rightarrow> 'f VPoint \<Rightarrow> 'f store" where
  "store_assign st l node v =
     st\<lparr>objs := objs st @ [v],
        seqs := (seqs st)[l := (seqs st ! l)[node := length (objs st)]]\<rparr>"

primrec foldS :: "('a \<Rightarrow> 's \<Rightarrow> error option \<times> 's) \<Rightarrow> 'a list \<Rightarrow> 's \<Rightarrow> error option \<times> 's" where
  "foldS f [] st = (None, st)"
| "foldS f (a # as) st =
     (case f a st of
        (Some e, st') \<Rightarrow> (Some e, st')
      | (None, st') \<Rightarrow> foldS f as st')"

text \<open>The replacement loops of \<^verbatim>\<open>t_config\<close> (lines 287 to 307) on the store; \<open>l\<close> is the
  address of the local sequence \<^verbatim>\<open>vpoints\<close>.\<close>

definition tc_replace_store ::
  "'f VPoint \<Rightarrow> nat \<Rightarrow> nat \<Rightarrow> nat \<Rightarrow> 'f store \<Rightarrow> error option \<times> 'f store" where
  "tc_replace_store vpoint base l node st =
     (case store_get st l node of
        Inl e \<Rightarrow> (Some e, st)
      | Inr vpoint' \<Rightarrow>
          if node = base \<or> type vpoint' \<noteq> VJoint_R then (None, st)
          else
            (case nth_err (links vpoint) 0 of
               Inl e \<Rightarrow> (Some e, st)
             | Inr l0 \<Rightarrow>
                 (None,
                  store_assign st l node
                    (c_slider_joint
                       ([l0] @ filter (\<lambda>k. k \<notin> set (links vpoint)) (links vpoint'))
                       VJoint_RP (angle vpoint) (vpoint_x vpoint') (vpoint_y vpoint')))))"

definition tc_normalize_base_store ::
  "'f VPoint_methods \<Rightarrow> (nat list \<Rightarrow> nat list) \<Rightarrow> (string \<rightharpoonup> nat list) \<Rightarrow> nat \<Rightarrow> nat \<Rightarrow>
   'f store \<Rightarrow> error option \<times> 'f store" where
  "tc_normalize_base_store cls set_iter vlinks l base st =
     (case store_get st l base of
        Inl e \<Rightarrow> (Some e, st)
      | Inr vpoint \<Rightarrow>
          if type vpoint \<noteq> VJoint_P \<or> \<not> grounded cls vpoint then (None, st)
          else
            foldS (\<lambda>link st'.
                     case lookup_err vlinks link of
                       Inl e \<Rightarrow> (Some e, st')
                     | Inr nodes \<Rightarrow> foldS (tc_replace_store vpoint base l) (set_iter nodes) st')
              (drop 1 (links vpoint)) st)"

definition tc_normalize_store ::
  "'f VPoint_methods \<Rightarrow> (nat list \<Rightarrow> nat list) \<Rightarrow> nat \<Rightarrow> 'f store \<Rightarrow> error option \<times> 'f store" where
  "tc_normalize_store cls set_iter l st =
     foldS (tc_normalize_base_store cls set_iter
              (snd (foldl tc_init_joint ([], Map.empty) (enumerate_list (deref st l)))) l)
       [0 ..< length (seqs st ! l)] st"

text \<open>\<^verbatim>\<open>t_config\<close> called with the address \<open>a\<close> of the caller's sequence: the result and
  the store after the call.\<close>

definition t_config_store ::
  "'f fops \<Rightarrow> 'f VPoint_methods \<Rightarrow> (nat list \<Rightarrow> nat list) \<Rightarrow> 'f store \<Rightarrow> nat \<Rightarrow>
   (nat \<times> nat) list \<Rightarrow> (nat \<times> bool) list \<Rightarrow>
   (failure + EStack \<times> (nat \<times> bool) list) option \<times> 'f store" where
  "t_config_store ops cls set_iter st a inputs status0 =
     (if seqs st ! a = [] then (Some (Inr ([], status0)), st)
      else if inputs = [] then (Some (Inr ([], status0)), st)
      else
        (case list_copy st a of (st1, l) \<Rightarrow>
         case tc_normalize_store cls set_iter l st1 of
           (Some e, st2) \<Rightarrow> (Some (Inl (Exception e)), st2)
         | (None, st2) \<Rightarrow>
             (tc_run (tc_start ops cls set_iter
                        (foldl tc_init_joint (status0, Map.empty) (enumerate_list (deref st1 l)))
                        inputs (deref st2 l)),
              st2)))"

text \<open>The replacement loops of \<^verbatim>\<open>data_collecting\<close> (lines 313 to 334) on the store, and
  \<^verbatim>\<open>data_collecting\<close> called with the address \<open>a\<close> of the caller's sequence.\<close>

definition dc_replace_store ::
  "'f VPoint \<Rightarrow> nat \<Rightarrow> nat \<Rightarrow> nat \<Rightarrow> 'f store \<Rightarrow> error option \<times> 'f store" where
  "dc_replace_store vpoint base l node st =
     (case store_get st l node of
        Inl e \<Rightarrow> (Some e, st)
      | Inr vpoint' \<Rightarrow>
          if node = base \<or> type vpoint' \<in> {VJoint_P, VJoint_RP} then (None, st)
          else
            (case nth_err (c vpoint') 0 of
               Inl e \<Rightarrow> (Some e, st)
             | Inr xy \<Rightarrow>
                 (case nth_err (links vpoint) 0 of
                    Inl e \<Rightarrow> (Some e, st)
                  | Inr l0 \<Rightarrow>
                      (None,
                       store_assign st l node
                         (c_slider_joint
                            ([l0] @ filter (\<lambda>k. k \<notin> set (links vpoint)) (links vpoint'))
                            VJoint_RP (angle vpoint) (fst xy) (snd xy))))))"

definition dc_normalize_base_store ::
  "(string \<rightharpoonup> nat list) \<Rightarrow> nat \<Rightarrow> nat \<Rightarrow> 'f store \<Rightarrow> error option \<times> 'f store" where
  "dc_normalize_base_store vlinks l base st =
     (case store_get st l base of
        Inl e \<Rightarrow> (Some e, st)
      | Inr vpoint \<Rightarrow>
          if type vpoint \<noteq> VJoint_P then (None, st)
          else
            foldS (\<lambda>link st'.
                     case lookup_err vlinks link of
                       Inl e \<Rightarrow> (Some e, st')
                     | Inr nodes \<Rightarrow> foldS (dc_replace_store vpoint base l) nodes st')
              (drop 1 (links vpoint)) st)"

definition dc_normalize_store :: "nat \<Rightarrow> 'f store \<Rightarrow> error option \<times> 'f store" where
  "dc_normalize_store l st =
     foldS (dc_normalize_base_store (dc_vlinks (deref st l)) l) [0 ..< length (seqs st ! l)] st"

definition data_collecting_store ::
  "'f fops \<Rightarrow> 'f VPoint_methods \<Rightarrow> EStack \<Rightarrow> 'f mentry list \<Rightarrow> 'f store \<Rightarrow> nat \<Rightarrow>
   (error + (string \<rightharpoonup> 'f dval) \<times> nat) \<times> 'f store" where
  "data_collecting_store ops cls exprs mapping st a =
     (case list_copy st a of (st1, l) \<Rightarrow>
      case dc_normalize_store l st1 of
        (Some e, st2) \<Rightarrow> (Inl e, st2)
      | (None, st2) \<Rightarrow> (dc_collect ops cls exprs mapping (deref st2 l), st2))"

text \<open>\<open>frame st st'\<close>: every joint object and every sequence object of \<open>st\<close> is in \<open>st'\<close>
  at the same address with the same content; \<open>valid_refs st l\<close>: the sequence at \<open>l\<close>
  exists and holds addresses of joints of the store.\<close>

definition frame :: "'f store \<Rightarrow> 'f store \<Rightarrow> bool" where
  "frame st st' \<longleftrightarrow>
     take (length (objs st)) (objs st') = objs st \<and> length (objs st) \<le> length (objs st')
     \<and> take (length (seqs st)) (seqs st') = seqs st \<and> length (seqs st) \<le> length (seqs st')"

definition valid_refs :: "'f store \<Rightarrow> nat \<Rightarrow> bool" where
  "valid_refs st l \<longleftrightarrow> l < length (seqs st) \<and> list_all (\<lambda>a. a < length (objs st)) (seqs st ! l)"

text \<open>A P joint that is on no ground link with a revolute friend on its second link.\<close>

definition slider_pair :: "real option VPoint list" where
  "slider_pair =
     [\<lparr>links = [''L1'', ''L2''], type = VJoint_P, angle = Some 30,
       vpoint_x = Some 0, vpoint_y = Some 0, c = [(Some 0, Some 0), (Some 0, Some 0)]\<rparr>,
      rjoint [''L2'', ''L3''] 1 0]"

definition slider_store :: "real option store" where
  "slider_store = \<lparr>objs = slider_pair, seqs = [[0, 1]]\<rparr>"


text \<open>\<open>sim l st vps\<close>: the sequence at \<open>l\<close> holds valid addresses and its joints are the
  list \<open>vps\<close>.\<close>

definition sim :: "nat \<Rightarrow> 'f store \<Rightarrow> 'f VPoint list \<Rightarrow> bool" where
  "sim l st vps \<longleftrightarrow> valid_refs st l \<and> deref st l = vps"

text \<open>A P joint on the ground with a revolute friend on its second link.\<close>

definition ground_slider :: "real option VPoint list" where
  "ground_slider =
     [\<lparr>links = [''ground'', ''L2''], type = VJoint_P, angle = Some 30,
       vpoint_x = Some 0, vpoint_y = Some 0, c = [(Some 0, Some 0), (Some 0, Some 0)]\<rparr>,
      rjoint [''L2'', ''L3''] 1 0]"

definition ground_slider_store :: "real option store" where
  "ground_slider_store = \<lparr>objs = ground_slider, seqs = [[0, 1]]\<rparr>"

section \<open>Cycle basis and outer loop (graph\_layout.pyx)\<close>

text \<open>
  Modelled from the spec: the class \<^verbatim>\<open>Graph\<close> (module \<^verbatim>\<open>graph\<close>) is not under src/.
  \<^verbatim>\<open>cycle_basis\<close> reads two attributes of it: \<^verbatim>\<open>nodes\<close>, the nodes, and \<^verbatim>\<open>adj\<close>, a
  dictionary from a node to the sequence of its neighbours ("the adjacency structure").
  Nodes are C \<^verbatim>\<open>int\<close>s.
\<close>

record Graph =
  nodes :: "int list"
  adj :: "int \<rightharpoonup> int list"

text \<open>
  The innermost loop of \<^verbatim>\<open>cycle_basis\<close>,
  \<^verbatim>\<open>while p not in pn: cycle.add(p); p = pred[p]\<close>, from the current cycle and \<open>p\<close>. It
  returns the cycle and the \<open>p\<close> it stopped at; \<open>None\<close> is a loop that does not end.
\<close>

partial_function (option) cycle_walk ::
  "(int \<rightharpoonup> int) \<Rightarrow> int set \<Rightarrow> int OrderedSet \<Rightarrow> int
   \<Rightarrow> (error + int OrderedSet \<times> int) option" where
  "cycle_walk pred pn cycle p =
     (if p \<in> pn then Some (Inr (cycle, p))
      else case pred p of
             None \<Rightarrow> Some (Inl KeyError)
           | Some q \<Rightarrow> cycle_walk pred pn (os_add cycle p) q)"

text \<open>An element of the list \<^verbatim>\<open>cycles\<close>: a self loop is appended as the plain list
  \<^verbatim>\<open>[z]\<close>, every other cycle as an \<^verbatim>\<open>OrderedSet\<close>.\<close>

datatype cycle = Ordered "int OrderedSet" | Plain "int list"

text \<open>The variables of the walk of one connected component. A Python \<^verbatim>\<open>set\<close> is a set,
  a dictionary a map.\<close>

record cb_state =
  cb_stack :: "int list"
  cb_pred :: "int \<rightharpoonup> int"
  cb_used :: "int \<rightharpoonup> int set"
  cb_cycles :: "cycle list"

text \<open>The body of \<^verbatim>\<open>for nbr in graph.adj[z]\<close>, with \<open>zused\<close> the set that \<^verbatim>\<open>used[z]\<close> held
  when \<open>z\<close> was popped (the loop body never writes that set: it writes \<^verbatim>\<open>used[nbr]\<close> for
  \<open>nbr \<noteq> z\<close> only).\<close>

definition cb_visit :: "int \<Rightarrow> int set \<Rightarrow> int \<Rightarrow> cb_state \<Rightarrow> (error + cb_state) option" where
  "cb_visit z zused nbr s =
     (case cb_used s nbr of
        None \<Rightarrow>
          Some (Inr (s\<lparr>cb_pred := (cb_pred s)(nbr \<mapsto> z),
                        cb_stack := cb_stack s @ [nbr],
                        cb_used := (cb_used s)(nbr \<mapsto> {z})\<rparr>))
      | Some pn \<Rightarrow>
          if nbr = z then Some (Inr (s\<lparr>cb_cycles := cb_cycles s @ [Plain [z]]\<rparr>))
          else if nbr \<notin> zused then
            (case cb_pred s z of
               None \<Rightarrow> Some (Inl KeyError)
             | Some p \<Rightarrow>
                 (case cycle_walk (cb_pred s) pn (OrderedSet_init [nbr, z]) p of
                    None \<Rightarrow> None
                  | Some (Inl e) \<Rightarrow> Some (Inl e)
                  | Some (Inr (cycle, p')) \<Rightarrow>
                      Some (Inr (s\<lparr>cb_cycles := cb_cycles s @ [Ordered (os_add cycle p')],
                                    cb_used := (cb_used s)(nbr \<mapsto> insert z pn)\<rparr>))))
          else Some (Inr s))"

fun fold_visit ::
  "('a \<Rightarrow> 's \<Rightarrow> (error + 's) option) \<Rightarrow> 'a list \<Rightarrow> 's \<Rightarrow> (error + 's) option" where
  "fold_visit f [] s = Some (Inr s)"
| "fold_visit f (x # xs) s =
     (case f x s of
        None \<Rightarrow> None
      | Some (Inl e) \<Rightarrow> Some (Inl e)
      | Some (Inr s') \<Rightarrow> fold_visit f xs s')"

text \<open>\<^verbatim>\<open>while stack:\<close>, the walk of the spanning tree of one component.\<close>

partial_function (option) cb_tree :: "Graph \<Rightarrow> cb_state \<Rightarrow> (error + cb_state) option" where
  "cb_tree g s =
     (if cb_stack s = [] then Some (Inr s)
      else
        let z = last (cb_stack s); s1 = s\<lparr>cb_stack := butlast (cb_stack s)\<rparr> in
        case cb_used s1 z of
          None \<Rightarrow> Some (Inl KeyError)
        | Some zused \<Rightarrow>
            (case adj g z of
               None \<Rightarrow> Some (Inl KeyError)
             | Some nbrs \<Rightarrow>
                 (case fold_visit (cb_visit z zused) nbrs s1 of
                    None \<Rightarrow> None
                  | Some (Inl e) \<Rightarrow> Some (Inl e)
                  | Some (Inr s2) \<Rightarrow> cb_tree g s2)))"

text \<open>\<^verbatim>\<open>while g_nodes:\<close>, the loop over the connected components. \<^verbatim>\<open>root\<close> is \<open>-1\<close> at
  the head of every iteration, so every iteration pops a root; which element
  \<^verbatim>\<open>g_nodes.pop()\<close> takes out of the set is the parameter \<open>pop\<close>.\<close>

partial_function (option) cb_components ::
  "(int set \<Rightarrow> int) \<Rightarrow> Graph \<Rightarrow> int set \<Rightarrow> cycle list
   \<Rightarrow> (error + cycle list) option" where
  "cb_components pop g g_nodes cycles =
     (if g_nodes = {} then Some (Inr cycles)
      else
        let root = pop g_nodes in
        case cb_tree g \<lparr>cb_stack = [root], cb_pred = [root \<mapsto> root],
                         cb_used = [root \<mapsto> {}], cb_cycles = cycles\<rparr> of
          None \<Rightarrow> None
        | Some (Inl e) \<Rightarrow> Some (Inl e)
        | Some (Inr s) \<Rightarrow>
            cb_components pop g ((g_nodes - {root}) - dom (cb_pred s)) (cb_cycles s))"

definition cycle_basis ::
  "(int set \<Rightarrow> int) \<Rightarrow> Graph \<Rightarrow> (error + cycle list) option" where
  "cycle_basis pop g = cb_components pop g (set (nodes g)) []"

text \<open>
  \<^verbatim>\<open>outer_loop\<close> declares \<^verbatim>\<open>cdef OrderedSet c1, c2, c3\<close> and returns an
  \<^verbatim>\<open>OrderedSet\<close>: storing a plain list in one of these variables, or returning one,
  raises \<^verbatim>\<open>TypeError\<close>.

  The \<^verbatim>\<open>for cyc2 in cycles\<close> loop: the first cycle that shares two nodes or more with
  \<open>cyc1\<close>, reversed in place when both or neither of the two cycles start with the shared
  nodes; \<open>None\<close> is the \<^verbatim>\<open>else\<close> of the loop.
\<close>

fun find_contact ::
  "int OrderedSet \<Rightarrow> cycle list \<Rightarrow> error + (cycle list \<times> int OrderedSet) option" where
  "find_contact cyc1 [] = Inr None"
| "find_contact cyc1 (Plain l # cs) = Inl TypeError"
| "find_contact cyc1 (Ordered cyc2 # cs) =
     (let cyc3 = OrderedSet_and cyc1 cyc2 in
      if length cyc3 \<ge> 2 then
        (let cyc2' = (if isorderedsuperset cyc1 cyc3 = isorderedsuperset cyc2 cyc3
                      then OrderedSet_reverse cyc2 else cyc2)
         in Inr (Some (Ordered cyc2' # cs, cyc2')))
      else
        (case find_contact cyc1 cs of
           Inl e \<Rightarrow> Inl e
         | Inr None \<Rightarrow> Inr None
         | Inr (Some (cs', cyc)) \<Rightarrow> Inr (Some (Ordered cyc2 # cs', cyc))))"

lemma find_contact_length:
  "find_contact cyc1 cs = Inr (Some (cs', cyc2)) \<Longrightarrow>
   length cs' = length cs \<and> Ordered cyc2 \<in> set cs'"
proof (induction cyc1 cs arbitrary: cs' cyc2 rule: find_contact.induct)
  case (1 cyc1)
  then show ?case by simp
next
  case (2 cyc1 l cs)
  then show ?case by simp
next
  case (3 cyc1 c2 cs)
  show ?case
  proof (cases "length (OrderedSet_and cyc1 c2) \<ge> 2")
    case True
    then show ?thesis using "3.prems" by (auto simp: Let_def)
  next
    case False
    then show ?thesis
      using "3.prems" "3.IH"
      by (auto simp: Let_def split: sum.splits option.splits)
  qed
qed

text \<open>\<^verbatim>\<open>while len(cycles) > 1:\<close> \<^verbatim>\<open>cycles.remove(cyc2)\<close> takes out the first element equal
  to \<open>cyc2\<close>; up to the place of \<open>cyc2\<close> the list holds ordered sets only.\<close>

function merge_cycles :: "cycle list \<Rightarrow> error + cycle list" where
  "merge_cycles cycles =
     (if length cycles > 1 then
        (case last cycles of
           Plain l \<Rightarrow> Inl TypeError
         | Ordered cyc1 \<Rightarrow>
             (case find_contact cyc1 (butlast cycles) of
                Inl e \<Rightarrow> Inl e
              | Inr None \<Rightarrow> Inl (ValueError Invalid_graph)
              | Inr (Some (cycles2, cyc2)) \<Rightarrow>
                  merge_cycles (remove1 (Ordered cyc2) cycles2 @ [Ordered (OrderedSet_or cyc1 cyc2)])))
      else Inr cycles)"
  by pat_completeness auto
termination
  apply (relation "measure length")
   apply simp
  apply (auto dest!: find_contact_length simp: length_remove1)
  done

declare merge_cycles.simps [simp del]

text \<open>\<^verbatim>\<open>outer_loop\<close>; the final \<^verbatim>\<open>cycles.pop()\<close> raises \<^verbatim>\<open>IndexError\<close> on an empty
  list, and returning a plain list raises \<^verbatim>\<open>TypeError\<close>.\<close>

definition outer_loop ::
  "(int set \<Rightarrow> int) \<Rightarrow> Graph \<Rightarrow> (error + int OrderedSet) option" where
  "outer_loop pop g =
     (case cycle_basis pop g of
        None \<Rightarrow> None
      | Some (Inl e) \<Rightarrow> Some (Inl e)
      | Some (Inr cycles) \<Rightarrow>
          Some (bindE (merge_cycles cycles)
                  (\<lambda>cs. if cs = [] then Inl IndexError
                        else (case last cs of
                                Plain l \<Rightarrow> Inl TypeError
                              | Ordered cyc \<Rightarrow> Inr cyc))))"

section \<open>Polygons and two triangles\<close>

text \<open>
  A polygon graph on the nodes \<open>vs\<close>, listed along the cycle: three nodes or more, all
  different, and the neighbours of each node are the next and the previous node of the
  list, in either order.
\<close>

definition polygon :: "Graph \<Rightarrow> int list \<Rightarrow> bool" where
  "polygon g vs \<longleftrightarrow>
     3 \<le> length vs \<and> distinct vs \<and> set (nodes g) = set vs \<and>
     list_all (\<lambda>i. adj g (vs ! i) = Some [vs ! ((i + 1) mod length vs),
                                            vs ! ((i + (length vs - 1)) mod length vs)]
                  \<or> adj g (vs ! i) = Some [vs ! ((i + (length vs - 1)) mod length vs),
                                            vs ! ((i + 1) mod length vs)])
       [0 ..< length vs]"

text \<open>
  The states of the walk on a polygon whose root \<open>vs ! 0\<close> lists its neighbours as
  \<open>last vs\<close>, \<open>vs ! 1\<close>: when \<open>vs ! k\<close> is about to be popped, the stack holds \<open>last vs\<close>
  below it, and the nodes up to \<open>vs ! k\<close> have their predecessor on the list as \<open>pred\<close>
  and as the one element of \<open>used\<close>.
\<close>

primrec chain_pred :: "int list \<Rightarrow> nat \<Rightarrow> int \<rightharpoonup> int" where
  "chain_pred vs 0 = [vs ! 0 \<mapsto> vs ! 0, last vs \<mapsto> vs ! 0]"
| "chain_pred vs (Suc k) = (chain_pred vs k)(vs ! Suc k \<mapsto> vs ! k)"

primrec chain_used :: "int list \<Rightarrow> nat \<Rightarrow> int \<rightharpoonup> int set" where
  "chain_used vs 0 = [vs ! 0 \<mapsto> {}, last vs \<mapsto> {vs ! 0}]"
| "chain_used vs (Suc k) = (chain_used vs k)(vs ! Suc k \<mapsto> {vs ! k})"

definition chain_state :: "int list \<Rightarrow> nat \<Rightarrow> cycle list \<Rightarrow> cb_state" where
  "chain_state vs k cycles =
     \<lparr>cb_stack = [last vs, vs ! k], cb_pred = chain_pred vs k, cb_used = chain_used vs k,
      cb_cycles = cycles\<rparr>"

text \<open>\<open>neighbours g v ns\<close>: the adjacency of \<open>v\<close> lists the nodes \<open>ns\<close>, each once, in some
  order.\<close>

definition neighbours :: "Graph \<Rightarrow> int \<Rightarrow> int list \<Rightarrow> bool" where
  "neighbours g v ns \<longleftrightarrow>
     (case adj g v of None \<Rightarrow> False | Some xs \<Rightarrow> distinct xs \<and> set xs = set ns)"

text \<open>The triangles \<open>a b p\<close> and \<open>a b q\<close>, which share the edge \<open>a b\<close> and nothing else.\<close>

definition two_triangles :: "Graph \<Rightarrow> int \<Rightarrow> int \<Rightarrow> int \<Rightarrow> int \<Rightarrow> bool" where
  "two_triangles g a b p q \<longleftrightarrow>
     distinct [a, b, p, q] \<and> set (nodes g) = {a, b, p, q}
     \<and> neighbours g a [b, p, q] \<and> neighbours g b [a, p, q]
     \<and> neighbours g p [a, b] \<and> neighbours g q [a, b]"

text \<open>What the walk from the root \<open>r\<close> leaves on the two triangles: two cycles, one on the
  nodes of each triangle, and every node has a predecessor.\<close>

definition pair_ok :: "int \<Rightarrow> int \<Rightarrow> int \<Rightarrow> int \<Rightarrow> int list \<Rightarrow> int list \<Rightarrow> bool" where
  "pair_ok a b p q t1 t2 \<longleftrightarrow>
     distinct t1 \<and> distinct t2
     \<and> (set t1 = {a, b, p} \<and> set t2 = {a, b, q} \<or> set t1 = {a, b, q} \<and> set t2 = {a, b, p})"

definition tree_ok :: "Graph \<Rightarrow> int \<Rightarrow> int \<Rightarrow> int \<Rightarrow> int \<Rightarrow> int \<Rightarrow> bool" where
  "tree_ok g a b p q r \<longleftrightarrow>
     (\<exists>s t1 t2.
        cb_tree g \<lparr>cb_stack = [r], cb_pred = [r \<mapsto> r], cb_used = [r \<mapsto> {}], cb_cycles = []\<rparr>
        = Some (Inr s)
        \<and> cb_cycles s = [Ordered t1, Ordered t2] \<and> dom (cb_pred s) = {a, b, p, q}
        \<and> pair_ok a b p q t1 t2)"

text \<open>\<open>walks_around g l\<close>: read as a closed walk, the list \<open>l\<close> follows edges of the graph:
  every node of \<open>l\<close> has the next node of \<open>l\<close> among its neighbours, and the last node
  has the first.\<close>

definition walks_around :: "Graph \<Rightarrow> int list \<Rightarrow> bool" where
  "walks_around g l \<longleftrightarrow>
     list_all (\<lambda>i. case adj g (l ! i) of
                      None \<Rightarrow> False
                    | Some ns \<Rightarrow> l ! ((i + 1) mod length l) \<in> set ns)
       [0 ..< length l]"

text \<open>A pentagon and two triangles on the edge between 1 and 2, with the neighbours in the
  order of the edge lists \<open>(0,1) (1,2) (2,3) (3,4) (4,0)\<close> and
  \<open>(0,1) (0,2) (1,2) (1,3) (2,3)\<close>.\<close>

definition pentagon :: Graph where
  "pentagon = \<lparr>nodes = [0, 1, 2, 3, 4],
               adj = [0 \<mapsto> [1, 4], 1 \<mapsto> [0, 2], 2 \<mapsto> [1, 3], 3 \<mapsto> [2, 4], 4 \<mapsto> [3, 0]]\<rparr>"

definition kite :: Graph where
  "kite = \<lparr>nodes = [0, 1, 2, 3],
           adj = [0 \<mapsto> [1, 2], 1 \<mapsto> [0, 2, 3], 2 \<mapsto> [0, 1, 3], 3 \<mapsto> [1, 2]]\<rparr>"

text \<open>Two triangles on the edge between 0 and 1, with the neighbours in the order of the edge
  list \<open>(0,2) (0,1) (1,2) (0,3) (1,3)\<close>.\<close>

definition kite2 :: Graph where
  "kite2 = \<lparr>nodes = [0, 2, 1, 3],
            adj = [0 \<mapsto> [2, 1, 3], 2 \<mapsto> [0, 1], 1 \<mapsto> [0, 2, 3], 3 \<mapsto> [0, 1]]\<rparr>"

section \<open>Ordered set: union and difference keep insertion order\<close>

lemma set_foldl_os_add: "set (foldl os_add acc xs) = set acc \<union> set xs"
  by (induction xs arbitrary: acc) (auto simp: os_add_def)

lemma foldl_os_add_filter:
  "distinct xs \<Longrightarrow> foldl os_add acc xs = acc @ filter (\<lambda>x. x \<notin> set acc) xs"
proof (induction xs arbitrary: acc)
  case Nil
  then show ?case by simp
next
  case (Cons x xs)
  have notin: "x \<notin> set xs" and dxs: "distinct xs"
    using Cons.prems by simp_all
  show ?case
  proof (cases "x \<in> set acc")
    case True
    then show ?thesis
      using Cons.IH [OF dxs, of acc] by (simp add: os_add_def)
  next
    case False
    have "filter (\<lambda>y. y \<notin> set (acc @ [x])) xs = filter (\<lambda>y. y \<notin> set acc) xs"
      using notin by (intro filter_cong) auto
    then show ?thesis
      using False Cons.IH [OF dxs, of "acc @ [x]"] by (simp add: os_add_def)
  qed
qed

lemma OrderedSet_init_distinct: "distinct xs \<Longrightarrow> OrderedSet_init xs = xs"
  by (simp add: OrderedSet_init_def foldl_os_add_filter)

text \<open>
  Claim C9. For ordered sets \<open>A\<close> and \<open>B\<close> (key lists without repetition), \<open>A | B\<close>
  enumerates the elements of \<open>A\<close> in the order of \<open>A\<close>, followed by the elements of \<open>B\<close>
  that are not in \<open>A\<close> in the order of \<open>B\<close>; and \<open>A - B\<close> enumerates exactly the elements
  of \<open>A\<close> that are not in \<open>B\<close>, in the order of \<open>A\<close>.
\<close>

theorem OrderedSet_or_sub_order:
  assumes "distinct A" and "distinct B"
  shows "OrderedSet_or A B = A @ filter (\<lambda>x. x \<notin> set A) B
       \<and> OrderedSet_sub A B = filter (\<lambda>x. x \<notin> set B) A"
proof -
  have "foldl os_add [] A = A"
    using assms(1) by (simp add: foldl_os_add_filter)
  then have u: "OrderedSet_or A B = A @ filter (\<lambda>x. x \<notin> set A) B"
    using assms(2)
    by (simp add: OrderedSet_or_def from_iterable_def OrderedSet_init_def foldl_os_add_filter)
  have b: "from_iterable B = B"
    using assms(2) by (simp add: from_iterable_def OrderedSet_init_distinct)
  have "distinct (filter (\<lambda>v. v \<notin> set B) A)"
    using assms(1) by simp
  then have "from_iterable (filter (\<lambda>v. v \<notin> set B) A) = filter (\<lambda>v. v \<notin> set B) A"
    by (simp only: from_iterable_def OrderedSet_init_distinct)
  then have s: "OrderedSet_sub A B = filter (\<lambda>x. x \<notin> set B) A"
    by (simp add: OrderedSet_sub_def b)
  show ?thesis
    using u s by simp
qed

theorem OrderedSet_or_sub_order_witness:
  "distinct [3, 1, 2 :: nat] \<and> distinct [2, 5, 3, 4 :: nat]
   \<and> OrderedSet_or [3, 1, 2 :: nat] [2, 5, 3, 4] = [3, 1, 2, 5, 4]
   \<and> OrderedSet_sub [3, 1, 2 :: nat] [2, 5, 3, 4] = [1]"
  using OrderedSet_or_sub_order [of "[3, 1, 2 :: nat]" "[2, 5, 3, 4]"] by simp

section \<open>Degrees of freedom: the loop computes the formula\<close>

lemma vpoint_dof_step_joint:
  "2 \<le> length (links v) \<Longrightarrow>
   vpoint_dof_step (j1, j2, vl) v = (j1 + dof_j1 v, j2 + dof_j2 v, vl \<union> set (links v))"
  by (cases "type v") (auto simp: vpoint_dof_step_def dof_j1_def dof_j2_def Let_def)

lemma vpoint_dof_step_skip:
  "\<not> 2 \<le> length (links v) \<Longrightarrow> vpoint_dof_step (j1, j2, vl) v = (j1, j2, vl)"
  by (auto simp: vpoint_dof_step_def Let_def)

lemma vpoint_dof_fold:
  "foldl vpoint_dof_step (j1, j2, vl) vps =
     (j1 + sum_list (map dof_j1 (dof_joints vps)),
      j2 + sum_list (map dof_j2 (dof_joints vps)),
      vl \<union> set (concat (map links (dof_joints vps))))"
proof (induction vps arbitrary: j1 j2 vl)
  case Nil
  then show ?case by (simp add: dof_joints_def)
next
  case (Cons v vps)
  show ?case
  proof (cases "2 \<le> length (links v)")
    case False
    have "dof_joints (v # vps) = dof_joints vps"
      using False by (simp add: dof_joints_def)
    then show ?thesis
      using Cons.IH [of j1 j2 vl] vpoint_dof_step_skip [OF False, of j1 j2 vl] by simp
  next
    case True
    have "dof_joints (v # vps) = v # dof_joints vps"
      using True by (simp add: dof_joints_def)
    then show ?thesis
      using Cons.IH [of "j1 + dof_j1 v" "j2 + dof_j2 v" "vl \<union> set (links v)"]
        vpoint_dof_step_joint [OF True, of j1 j2 vl]
      by (simp add: Un_assoc add.assoc)
  qed
qed

text \<open>
  Claim C4. For every joint list, \<^verbatim>\<open>vpoint_dof\<close> returns \<open>3 (L - 1) - 2 j1 - j2\<close>, where
  \<open>L\<close> counts the distinct links on joints with at least two link memberships plus the
  ground link, \<open>j1\<close> sums, over these joints, memberships minus one for a revolute joint,
  one plus the memberships beyond two for a prismatic joint and the memberships beyond two
  for an RP joint, and \<open>j2\<close> counts the RP joints among them; joints with fewer than two
  memberships contribute nothing.
\<close>

theorem vpoint_dof_formula:
  "vpoint_dof vpoints = dof_formula vpoints"
  by (simp add: vpoint_dof_def vpoint_dof_fold dof_formula_def dof_links_def)

theorem vpoint_dof_formula_witness:
  "vpoint_dof crank = 1 \<and> dof_formula crank = 1"
  using vpoint_dof_formula [of crank]
  by (simp add: vpoint_dof_def vpoint_dof_step_def crank_def card_insert_if)


section \<open>Circle intersection: circles that touch\<close>

text \<open>The three tests of \<^verbatim>\<open>pllp\<close> give the failure coordinate, whatever the arithmetic.\<close>

lemma pllp_nan_if:
  assumes "f_gt ops (Coordinate_distance ops p q) (f_add ops d0 d1)
         \<or> f_lt ops (Coordinate_distance ops p q) (f_abs ops (f_sub ops d0 d1))
         \<or> (f_eq ops (Coordinate_distance ops p q) (f_lit ops 0) \<and> f_eq ops d0 d1)"
  shows "pllp ops p d0 d1 q invert = (f_nan ops, f_nan ops)"
  using assms by (auto simp: pllp_def Let_def)

lemma pow2_less_exp:
  assumes "(2::real) powi a < 2 powi b"
  shows "a < b"
proof (rule ccontr)
  assume "\<not> a < b"
  then have "b \<le> a" by simp
  from power_int_increasing [OF this, of "2::real"] assms show False by simp
qed

lemma find_exp_eq:
  assumes "2 powi e \<le> \<bar>x\<bar>" and "\<bar>x\<bar> < 2 powi (e + 1)" and "\<bar>e - e0\<bar> \<le> int n"
  shows "find_exp n e0 x = e"
  using assms(3)
proof (induction n arbitrary: e0)
  case 0
  then show ?case by simp
next
  case (Suc n)
  show ?case
  proof (cases "\<bar>x\<bar> < 2 powi e0")
    case True
    with assms(1) have "(2::real) powi e < 2 powi e0" by simp
    then have "e < e0" by (rule pow2_less_exp)
    then have "\<bar>e - (e0 - 1)\<bar> \<le> int n" using Suc.prems by simp
    from Suc.IH [OF this] True show ?thesis by simp
  next
    case False
    show ?thesis
    proof (cases "2 powi (e0 + 1) \<le> \<bar>x\<bar>")
      case True
      with assms(2) have "(2::real) powi (e0 + 1) < 2 powi (e + 1)" by simp
      then have "e0 + 1 < e + 1" by (rule pow2_less_exp)
      then have "e0 < e" by simp
      then have "\<bar>e - (e0 + 1)\<bar> \<le> int n" using Suc.prems by simp
      from Suc.IH [OF this] True False show ?thesis by simp
    next
      case up: False
      from False assms(2) have "(2::real) powi e0 < 2 powi (e + 1)" by simp
      then have "e0 < e + 1" by (rule pow2_less_exp)
    then have a: "e0 \<le> e" by simp
      from up assms(1) have "(2::real) powi e < 2 powi (e0 + 1)" by simp
      then have "e < e0 + 1" by (rule pow2_less_exp)
    then have b: "e \<le> e0" by simp
      from a b False up show ?thesis by simp
    qed
  qed
qed

lemma b64_val:
  assumes "2 powi e \<le> \<bar>x\<bar>" and "\<bar>x\<bar> < 2 powi (e + 1)" and "- 1022 \<le> e" and "e \<le> 1023"
    and "round_even (x / 2 powi (e - 52)) = m"
    and "\<bar>of_int m * 2 powi (e - 52)\<bar> < (2::real) powi 1024"
  shows "b64 x = Some (of_int m * 2 powi (e - 52))"
proof -
  have nz: "x \<noteq> 0"
  proof
    assume "x = 0"
    with assms(1) have "(2::real) powi e \<le> 0" by simp
    moreover have "(0::real) < 2 powi e" by simp
    ultimately show False by linarith
  qed
  have "\<bar>e - 0\<bar> \<le> int 2200" using assms(3,4) by simp
  from find_exp_eq [OF assms(1,2) this] have "b64_exp x = e"
    using assms(3) by (simp add: b64_exp_def)
  then show ?thesis using nz assms(5,6) by (simp add: b64_def Let_def)
qed

lemma b64_zero: "b64 0 = Some 0"
  by (simp add: b64_def)

lemma b64_lift2_None [simp]: "b64_lift2 f a None = None" "b64_lift2 f None b = None"
  by (simp_all add: b64_lift2_def split: option.splits)

lemma b64_two_one: "b64 (21 / 10) = Some (4728779608739021 / 2251799813685248)"
  using b64_val [of 1 "21 / 10" 4728779608739021] by (simp add: round_even_def)

lemma b64_two_six: "b64 (26 / 10) = Some (5854679515581645 / 2251799813685248)"
  using b64_val [of 1 "26 / 10" 5854679515581645] by (simp add: round_even_def)

lemma b64_ops_None:
  "f_mul b64_ops None y = None" "f_div b64_ops None y = None"
  "f_sub b64_ops x None = None" "f_add b64_ops x None = None"
  by (simp_all add: b64_ops_def)

lemma b64_hypot_zero: "f_hypot b64_ops (Some x) (Some 0) = b64 \<bar>x\<bar>"
  by (simp add: b64_ops_def b64_lift2_def)

text \<open>The operations of \<^verbatim>\<open>pllp\<close> on the circles that touch, one rounding at a time.\<close>

lemma touch_distance:
  "f_sub b64_ops (Some (5854679515581645 / 2251799813685248)) (Some 0)
   = Some (5854679515581645 / 2251799813685248)"
  "f_sub b64_ops (Some 0) (Some 0) = Some 0"
  "f_hypot b64_ops (Some (5854679515581645 / 2251799813685248)) (Some 0)
   = Some (5854679515581645 / 2251799813685248)"
  using b64_val [of 1 "5854679515581645 / 2251799813685248" 5854679515581645]
  by (simp_all add: b64_hypot_zero) (simp_all add: b64_ops_def b64_lift2_def b64_zero round_even_def)

lemma touch_sum:
  "f_add b64_ops (Some (1 / 2)) (Some (4728779608739021 / 2251799813685248))
   = Some (5854679515581645 / 2251799813685248)"
  using b64_val [of 1 "1 / 2 + 4728779608739021 / 2251799813685248" 5854679515581645]
  by (simp add: b64_ops_def b64_lift2_def round_even_def)

lemma touch_difference:
  "f_abs b64_ops (f_sub b64_ops (Some (1 / 2)) (Some (4728779608739021 / 2251799813685248)))
   = Some (3602879701896397 / 2251799813685248)"
  using b64_val [of 0 "1 / 2 - 4728779608739021 / 2251799813685248" "- 7205759403792794"]
  by (simp add: b64_ops_def b64_lift2_def round_even_def)

lemma touch_literals: "f_lit b64_ops 0 = Some 0" "f_lit b64_ops 2 = Some 2"
  using b64_val [of 1 2 4503599627370496]
  by (simp_all add: b64_ops_def b64_zero round_even_def)

lemma touch_squares:
  "f_mul b64_ops (Some (1 / 2)) (Some (1 / 2)) = Some (1 / 4)"
  "f_mul b64_ops (Some (4728779608739021 / 2251799813685248))
     (Some (4728779608739021 / 2251799813685248))
   = Some (1241304647293993 / 281474976710656)"
  "f_mul b64_ops (Some (5854679515581645 / 2251799813685248))
     (Some (5854679515581645 / 2251799813685248))
   = Some (7611083370256139 / 1125899906842624)"
  using b64_val [of "- 2" "1 / 2 * (1 / 2)" 4503599627370496]
    b64_val [of 2 "4728779608739021 / 2251799813685248 * (4728779608739021 / 2251799813685248)"
      4965218589175972]
    b64_val [of 2 "5854679515581645 / 2251799813685248 * (5854679515581645 / 2251799813685248)"
      7611083370256139]
  by (simp_all add: b64_ops_def b64_lift2_def round_even_def)

lemma touch_numerator:
  "f_sub b64_ops (Some (1 / 4)) (Some (1241304647293993 / 281474976710656))
   = Some (- (1170935903116329 / 281474976710656))"
  "f_add b64_ops (Some (- (1170935903116329 / 281474976710656)))
     (Some (7611083370256139 / 1125899906842624))
   = Some (2927339757790823 / 1125899906842624)"
  using b64_val [of 2 "1 / 4 - 1241304647293993 / 281474976710656" "- 4683743612465316"]
    b64_val [of 1 "- (1170935903116329 / 281474976710656) + 7611083370256139 / 1125899906842624"
      5854679515581646]
  by (simp_all add: b64_ops_def b64_lift2_def round_even_def)

lemma touch_a:
  "f_mul b64_ops (Some 2) (Some (5854679515581645 / 2251799813685248))
   = Some (5854679515581645 / 1125899906842624)"
  "f_div b64_ops (Some (2927339757790823 / 1125899906842624))
     (Some (5854679515581645 / 1125899906842624))
   = Some (4503599627370497 / 9007199254740992)"
  using b64_val [of 2 "2 * (5854679515581645 / 2251799813685248)" 5854679515581645]
    b64_val [of "- 1" "2927339757790823 / 1125899906842624 / (5854679515581645 / 1125899906842624)"
      4503599627370497]
  by (simp_all add: b64_ops_def b64_lift2_def round_even_def)

lemma touch_h:
  "f_mul b64_ops (Some (4503599627370497 / 9007199254740992))
     (Some (4503599627370497 / 9007199254740992))
   = Some (2251799813685249 / 9007199254740992)"
  "f_sub b64_ops (Some (1 / 4)) (Some (2251799813685249 / 9007199254740992))
   = Some (- (1 / 9007199254740992))"
  "f_sqrt b64_ops (Some (- (1 / 9007199254740992))) = None"
  using b64_val [of "- 2" "4503599627370497 / 9007199254740992 * (4503599627370497 / 9007199254740992)"
      4503599627370498]
    b64_val [of "- 53" "1 / 4 - 2251799813685249 / 9007199254740992" "- 4503599627370496"]
  by (simp_all add: b64_ops_def b64_lift2_def round_even_def)

lemma touch_tests:
  "\<not> f_gt b64_ops (Some (5854679515581645 / 2251799813685248))
        (Some (5854679515581645 / 2251799813685248))"
  "\<not> f_lt b64_ops (Some (5854679515581645 / 2251799813685248))
        (Some (3602879701896397 / 2251799813685248))"
  "\<not> f_eq b64_ops (Some (5854679515581645 / 2251799813685248)) (Some 0)"
  by (simp_all add: b64_ops_def cmp2_def)

lemmas touch_steps =
  touch_distance touch_sum touch_difference touch_literals touch_squares touch_numerator
  touch_a touch_h touch_tests b64_ops_None

lemma touch_pllp:
  "pllp b64_ops (Some 0, Some 0) (Some (1 / 2)) touch_d1 touch_c2 invert = (None, None)"
  unfolding touch_d1_def touch_c2_def b64_two_one b64_two_six
  by (simp add: pllp_def Coordinate_distance_def distance_def Let_def touch_steps)

text \<open>In exact arithmetic, two circles that touch from outside meet in one point, and
  \<^verbatim>\<open>pllp\<close> gives it.\<close>

lemma pllp_exact_touch:
  assumes "0 < r0" and "0 < r1" and "d = r0 + r1"
  shows "pllp real_ops (Some 0, Some 0) (Some r0) (Some r1) (Some d, Some 0) invert
         = (Some r0, Some 0)"
proof -
  have pos: "0 < d" "d \<noteq> 0" "\<bar>d\<bar> = d" using assms by simp_all
  have tests: "\<not> r0 + r1 < d" "\<not> d < \<bar>r0 - r1\<bar>" using assms by simp_all
  have "r0 * r0 - r1 * r1 + d * d = r0 * (2 * d)"
    unfolding assms(3) by (simp add: algebra_simps)
  then have a: "(r0 * r0 - r1 * r1 + d * d) / (2 * d) = r0"
    using pos(2) by simp
  show ?thesis
    unfolding pllp_def Coordinate_distance_def distance_def
    by (simp add: real_ops_def lift2_def cmp2_def Let_def pos tests a)
qed

text \<open>
  Claim C2, evaluated in binary64 on two circles that touch from outside: the centres
  \<open>(0, 0)\<close> and \<open>(2.6, 0)\<close> and the radii 0.5 and 2.1. The doubles 0.5 and 2.1 add up to
  the double 2.6 without rounding, so the distance of the centres is the sum of the
  radii: none of the three tests of \<^verbatim>\<open>pllp\<close> holds, and the circles meet in \<open>(0.5, 0)\<close>.
  \<^verbatim>\<open>a\<close> is rounded to \<open>0.5 + 2\<^sup>-\<^sup>5\<^sup>3\<close>, \<^verbatim>\<open>d0 * d0 - a * a\<close> is \<open>- 2\<^sup>-\<^sup>5\<^sup>3\<close>, its square root is NaN,
  and \<^verbatim>\<open>pllp\<close> returns the failure coordinate for both values of \<^verbatim>\<open>inverse\<close>.
\<close>

theorem pllp_touching_circles_nan:
  "touch_d1 = Some (4728779608739021 / 2251799813685248)
   \<and> touch_c2 = (Some (5854679515581645 / 2251799813685248), Some 0)
   \<and> (1 / 2 + 4728779608739021 / 2251799813685248 :: real) = 5854679515581645 / 2251799813685248
   \<and> Coordinate_distance b64_ops (Some 0, Some 0) touch_c2 = fst touch_c2
   \<and> f_add b64_ops (Some (1 / 2)) touch_d1 = fst touch_c2
   \<and> \<not> f_gt b64_ops (Coordinate_distance b64_ops (Some 0, Some 0) touch_c2)
          (f_add b64_ops (Some (1 / 2)) touch_d1)
   \<and> \<not> f_lt b64_ops (Coordinate_distance b64_ops (Some 0, Some 0) touch_c2)
          (f_abs b64_ops (f_sub b64_ops (Some (1 / 2)) touch_d1))
   \<and> \<not> f_eq b64_ops (Coordinate_distance b64_ops (Some 0, Some 0) touch_c2) (f_lit b64_ops 0)
   \<and> pllp real_ops (Some 0, Some 0) (Some (1 / 2)) touch_d1 touch_c2 False = (Some (1 / 2), Some 0)
   \<and> f_isnan b64_ops (f_nan b64_ops)
   \<and> pllp b64_ops (Some 0, Some 0) (Some (1 / 2)) touch_d1 touch_c2 False
     = (f_nan b64_ops, f_nan b64_ops)
   \<and> pllp b64_ops (Some 0, Some 0) (Some (1 / 2)) touch_d1 touch_c2 True
     = (f_nan b64_ops, f_nan b64_ops)"
proof -
  have exact: "pllp real_ops (Some 0, Some 0) (Some (1 / 2)) touch_d1 touch_c2 False
               = (Some (1 / 2), Some 0)"
    unfolding touch_d1_def touch_c2_def b64_two_one b64_two_six
    by (rule pllp_exact_touch) simp_all
  have nan: "f_nan b64_ops = None" by (simp add: b64_ops_def)
  have tests:
    "Coordinate_distance b64_ops (Some 0, Some 0) touch_c2 = fst touch_c2"
    "f_add b64_ops (Some (1 / 2)) touch_d1 = fst touch_c2"
    "\<not> f_gt b64_ops (Coordinate_distance b64_ops (Some 0, Some 0) touch_c2)
         (f_add b64_ops (Some (1 / 2)) touch_d1)"
    "\<not> f_lt b64_ops (Coordinate_distance b64_ops (Some 0, Some 0) touch_c2)
         (f_abs b64_ops (f_sub b64_ops (Some (1 / 2)) touch_d1))"
    "\<not> f_eq b64_ops (Coordinate_distance b64_ops (Some 0, Some 0) touch_c2) (f_lit b64_ops 0)"
    unfolding touch_d1_def touch_c2_def b64_two_one b64_two_six
    by (simp_all add: Coordinate_distance_def distance_def touch_steps)
  have v: "touch_d1 = Some (4728779608739021 / 2251799813685248)"
    "touch_c2 = (Some (5854679515581645 / 2251799813685248), Some 0)"
    unfolding touch_d1_def touch_c2_def b64_two_one b64_two_six by (rule refl)+
  have sum: "(1 / 2 + 4728779608739021 / 2251799813685248 :: real)
             = 5854679515581645 / 2251799813685248"
    by simp
  have isnan: "f_isnan b64_ops (f_nan b64_ops)" by (simp add: b64_ops_def)
  have p: "pllp b64_ops (Some 0, Some 0) (Some (1 / 2)) touch_d1 touch_c2 invert
           = (f_nan b64_ops, f_nan b64_ops)" for invert
    using touch_pllp [of invert] by (simp add: nan)
  show ?thesis
    by (intro conjI) (fact v sum tests exact isnan p [of False] p [of True])+
qed

section \<open>Error values and folds\<close>

lemma bindE_simps [simp]:
  "bindE (Inl e) f = Inl e" "bindE (Inr a) f = f a"
  by (simp_all add: bindE_def)

lemma bindE_eq_Inr:
  "bindE m f = Inr b \<longleftrightarrow> (\<exists>a. m = Inr a \<and> f a = Inr b)"
  by (cases m) simp_all

lemma bindE_eq_Inl:
  "bindE m f = Inl e \<longleftrightarrow> m = Inl e \<or> (\<exists>a. m = Inr a \<and> f a = Inl e)"
  by (cases m) simp_all

lemma foldE_error:
  assumes "foldE f s xs = Inl e"
  shows "\<exists>s' x. x \<in> set xs \<and> f s' x = Inl e"
  using assms
proof (induction xs arbitrary: s)
  case Nil
  then show ?case by simp
next
  case (Cons a as)
  show ?case
  proof (cases "f s a")
    case (Inl e')
    then show ?thesis using Cons.prems by auto
  next
    case (Inr s')
    then have "foldE f s' as = Inl e" using Cons.prems by simp
    from Cons.IH [OF this] show ?thesis by auto
  qed
qed

lemma dc_expr_dof:
  "dc_expr ops mapping mapping_r lengths pos (dd, n) e = Inr (dd', n') \<Longrightarrow>
   n' = n + (if func e \<in> {PLA, PLAP} then 1 else 0)"
  unfolding dc_expr_def
  by (auto simp: bindE_eq_Inr split: if_splits)

lemma dc_expr_fold_dof:
  "foldE (dc_expr ops mapping mapping_r lengths pos) (dd, n) es = Inr (dd', n') \<Longrightarrow>
   n' = n + length (filter (\<lambda>e. func e \<in> {PLA, PLAP}) es)"
proof (induction es arbitrary: dd n)
  case Nil
  then show ?case by simp
next
  case (Cons e es)
  from Cons.prems obtain dd1 n1 where
    step: "dc_expr ops mapping mapping_r lengths pos (dd, n) e = Inr (dd1, n1)"
    and rest: "foldE (dc_expr ops mapping mapping_r lengths pos) (dd1, n1) es = Inr (dd', n')"
    by (auto split: sum.splits)
  from dc_expr_dof [OF step] Cons.IH [OF rest] show ?case by simp
qed

lemma data_collecting_dof:
  assumes "data_collecting ops cls exprs mapping vpoints = Inr (dd, dof_input)"
  shows "dof_input = length (filter (\<lambda>e. func e \<in> {PLA, PLAP}) exprs)"
proof -
  obtain mr ln dd0 where
    m: "foldl (dc_mapping_step mapping) (Map.empty, Map.empty, Map.empty) mapping = (mr, ln, dd0)"
    by (cases "foldl (dc_mapping_step mapping) (Map.empty, Map.empty, Map.empty) mapping")
  from assms obtain ps mr' dd1 where
    "foldE (dc_expr ops mapping mr' ln ps) (dd0, 0) exprs = Inr (dd1, dof_input)"
    unfolding data_collecting_def dc_collect_def m
    by (auto simp: bindE_eq_Inr)
  from dc_expr_fold_dof [OF this] show ?thesis by simp
qed

lemma driver_check_error:
  "driver_check cls mr vps u e = Inl err \<Longrightarrow> err \<in> {KeyError, IndexError, ValueError Wrong_driver}"
  unfolding driver_check_def
  by (auto simp: bindE_eq_Inl lookup_err_def nth_err_def split: if_splits option.splits)

lemma dd_coord_error: "dd_coord dd s = Inl err \<Longrightarrow> err \<in> {KeyError, TypeError}"
  by (auto simp: dd_coord_def split: option.splits dval.splits)

lemma dd_scalar_error: "dd_scalar dd s = Inl err \<Longrightarrow> err \<in> {KeyError, TypeError}"
  by (auto simp: dd_scalar_def split: option.splits dval.splits)

lemma expr_parser_step_error:
  "expr_parser_step ops dd e = Inl err \<Longrightarrow>
   err \<in> {KeyError, TypeError, ValueError Unsupported_function}"
  unfolding expr_parser_step_def
  by (auto simp: bindE_eq_Inl split: if_splits dest: dd_coord_error dd_scalar_error)

lemma known_point_error: "known_point mapping dd s i = Inl err \<Longrightarrow> err = KeyError"
  by (auto simp: known_point_def split: option.splits)

lemma call_solver_error:
  "call_solver solver vps p = Inl err \<Longrightarrow>
   err \<in> {KeyError, IndexError, TypeError, ValueError Sketch_failure}"
  by (auto simp: call_solver_def split: sum.splits error.splits)

lemma bfgs_pair_error: "bfgs_pair s = Inl err \<Longrightarrow> err = IndexError"
  by (auto simp: bfgs_pair_def bindE_eq_Inl nth_err_def split: solved.splits if_splits)

lemma solved_point_error:
  "solved_point ops mapping dd bfgs i v = Inl err \<Longrightarrow>
   err \<in> {KeyError, IndexError, TypeError, ValueError (Point_failure i)}"
  unfolding solved_point_def
  by (auto simp: bindE_eq_Inl nth_err_def
      split: option.splits dval.splits if_splits dest: bfgs_pair_error)

lemma solved_points_error:
  assumes "solved_points ops mapping dd bfgs vps = Inl err"
  shows "err \<in> {KeyError, IndexError, TypeError} \<or> (\<exists>i. err = ValueError (Point_failure i))"
proof -
  from foldE_error [OF assms [unfolded solved_points_def]]
  obtain acc x where "bindE (solved_point ops mapping dd bfgs (fst x) (snd x)) (\<lambda>p. Inr (acc @ [p])) = Inl err"
    by blast
  then have "solved_point ops mapping dd bfgs (fst x) (snd x) = Inl err"
    by (simp add: bindE_eq_Inl)
  from solved_point_error [OF this] show ?thesis by auto
qed



lemma foldE_success:
  assumes "foldE f s xs = Inr s'" and "x \<in> set xs"
  shows "\<exists>s1 s2. f s1 x = Inr s2"
  using assms
proof (induction xs arbitrary: s)
  case Nil
  then show ?case by simp
next
  case (Cons a as)
  from Cons.prems(1) obtain s1 where a: "f s a = Inr s1" and r: "foldE f s1 as = Inr s'"
    by (auto split: sum.splits)
  show ?case
  proof (cases "x = a")
    case True
    then show ?thesis using a by blast
  next
    case False
    then have "x \<in> set as" using Cons.prems(2) by simp
    from Cons.IH [OF r this] show ?thesis .
  qed
qed




lemma length_enumerate_list [simp]: "length (enumerate_list xs) = length xs"
  by (simp add: enumerate_list_def)









section \<open>Evaluating the examples\<close>

lemmas eval_defs =
  data_collecting_def dc_collect_def dc_normalize_def dc_normalize_base_def dc_replace_def dc_vlinks_def
  vlinks_append_def dc_mapping_step_def dc_pos_def base_friend_def dc_slider_def dc_link_def
  dc_point_def dc_offset_def dc_expr_def dc_grounded_def enumerate_list_def nth_err_def
  lookup_err_def symbol_str_def add_pla_def Expr_fresh_def spec_methods_def VLink_FRAME_def
  tuple_distance_def distance_def radians_def real_ops_def lift2_def cmp2_def
  crank_def crank_mapping_def crank_exprs_def crank_exprs2_def lone_joint_def lone_mapping_def
  no_solver_def pair_joints_def pair_mapping_def fixed_solver_def

lemmas eval_solving_defs =
  expr_solving_dict_def solver_input_def expr_parser_step_def inject_angles_def driver_check_def mapping_reverse_def
  dd_coord_def dd_scalar_def plap_def known_point_def solved_points_def solved_point_def

lemma upt2: "[0 ..< 2] = [0, 1]"
  by (simp add: upt_rec)

lemma crank_dof: "vpoint_dof crank = 1"
  by (simp add: vpoint_dof_def vpoint_dof_step_def crank_def card_insert_if)

lemma crank_dc:
  "\<exists>dd. data_collecting real_ops (spec_methods real_ops) crank_exprs crank_mapping crank
        = Inr (dd, 1)"
  by (simp add: eval_defs upt2)

lemma crank_dc2:
  "\<exists>dd. data_collecting real_ops (spec_methods real_ops) crank_exprs2 crank_mapping crank
        = Inr (dd, 2)"
  by (simp add: eval_defs upt2)

lemma crank_dict:
  "expr_solving_dict real_ops (spec_methods real_ops) crank_exprs crank_mapping crank [Some 90]
   = Inr [''L0'' \<mapsto> Scalar (Some 1), ''P0'' \<mapsto> Coord (Some 0, Some 0),
          ''a0'' \<mapsto> Scalar (Some (pi / 2)), ''P1'' \<mapsto> Coord (Some 0, Some 1)]"
  apply (simp add: expr_solving_dict_def crank_dof Let_def)
  apply (simp add: eval_defs upt2)
  apply (simp add: eval_solving_defs eval_defs upt2)
  done

lemma crank_input:
  "solver_input crank_mapping
     [''L0'' \<mapsto> Scalar (Some 1), ''P0'' \<mapsto> Coord (Some 0, Some 0),
      ''a0'' \<mapsto> Scalar (Some (pi / 2)), ''P1'' \<mapsto> Coord (Some 0, Some 1)] crank
   = Inr ([(PInt 0, Coord (Some 0, Some 0)), (PInt 1, Coord (Some 0, Some 1))], False)"
  by (simp add: solver_input_def known_point_def crank_def crank_mapping_def upt2)

lemma crank_shaped:
  "joints_shaped crank_mapping
     [''L0'' \<mapsto> Scalar (Some 1), ''P0'' \<mapsto> Coord (Some 0, Some 0),
      ''a0'' \<mapsto> Scalar (Some (pi / 2)), ''P1'' \<mapsto> Coord (Some 0, Some 1)] crank"
  by (simp add: joints_shaped_def joint_shaped_def enumerate_list_def crank_def crank_mapping_def
      upt2)

lemma crank_solved:
  "expr_solving real_ops (spec_methods real_ops) no_solver crank_exprs crank_mapping crank
     [Some 90]
   = Inr [Single (Some 0, Some 0), Single (Some 0, Some 1)]"
  by (simp add: expr_solving_def expr_solving_data_def crank_dict crank_input)
    (simp add: eval_solving_defs eval_defs upt2)

lemma crank_count_error:
  "expr_solving real_ops (spec_methods real_ops) no_solver crank_exprs2 crank_mapping crank
     [Some 90, Some 0]
   = Inl (ValueError (Wrong_input_count 2 1))"
proof -
  from crank_dc2 obtain dd where
    "data_collecting real_ops (spec_methods real_ops) crank_exprs2 crank_mapping crank
     = Inr (dd, 2)" ..
  then show ?thesis
    by (simp add: expr_solving_def expr_solving_data_def expr_solving_dict_def crank_dof Let_def)
qed











lemma pair_no_nan:
  "\<not> (\<exists>i<length pair_joints.
         nan_entry real_ops (pair_mapping (Some 0)) [''P0'' \<mapsto> Coord (Some 0, Some 0)] i)"
  by (simp add: nan_entry_def pair_mapping_def real_ops_def pair_joints_def less_Suc_eq)




section \<open>The solver entry: input count and complete results\<close>

text \<open>
  Claim C3. Whenever \<^verbatim>\<open>data_collecting\<close> returns, the count of consumed degrees of
  freedom that it returns is the number of PLA and PLAP expressions of the stack, and
  \<^verbatim>\<open>expr_solving\<close> raises the error "wrong number of input parameters" exactly when that
  count is greater than the degrees of freedom computed by \<^verbatim>\<open>vpoint_dof\<close>; when the
  count does not exceed them, no path of \<^verbatim>\<open>expr_solving\<close> raises this error.
\<close>

theorem wrong_input_count_iff:
  assumes "data_collecting ops cls exprs mapping vpoints = Inr (dd, dof_input)"
  shows "dof_input = length (filter (\<lambda>e. func e \<in> {PLA, PLAP}) exprs)
       \<and> ((\<exists>a b. expr_solving ops cls solver exprs mapping vpoints angles
                    = Inl (ValueError (Wrong_input_count a b)))
            \<longleftrightarrow> int dof_input > vpoint_dof vpoints)"
proof -
  let ?res = "expr_solving ops cls solver exprs mapping vpoints angles"
  have count: "dof_input = length (filter (\<lambda>e. func e \<in> {PLA, PLAP}) exprs)"
    using data_collecting_dof [OF assms] .
  have "?res = Inl (ValueError (Wrong_input_count dof_input (vpoint_dof vpoints)))"
    if "int dof_input > vpoint_dof vpoints"
    using that assms
    by (simp add: expr_solving_def expr_solving_data_def expr_solving_dict_def Let_def)
  moreover have "?res \<noteq> Inl (ValueError (Wrong_input_count a b))"
    if le: "\<not> int dof_input > vpoint_dof vpoints" for a b
  proof
    assume bad: "?res = Inl (ValueError (Wrong_input_count a b))"
    let ?w = "ValueError (Wrong_input_count a b)"
    have w: "?w \<notin> {KeyError, IndexError, TypeError, ValueError Wrong_driver,
               ValueError Unsupported_function, ValueError Sketch_failure}"
      by simp
    from bad have "expr_solving_data ops cls solver exprs mapping vpoints angles = Inl ?w
         \<or> (\<exists>ds. solved_points ops mapping (fst ds) (snd ds) vpoints = Inl ?w)"
      by (auto simp: expr_solving_def bindE_eq_Inl)
    then show False
    proof
      assume "\<exists>ds. solved_points ops mapping (fst ds) (snd ds) vpoints = Inl ?w"
      then show False using solved_points_error by fastforce
    next
      assume d: "expr_solving_data ops cls solver exprs mapping vpoints angles = Inl ?w"
      from d le assms consider
          (drv) "foldE (driver_check cls (mapping_reverse mapping) vpoints) () exprs = Inl ?w"
        | (knw) data_dict where "foldE (known_point mapping data_dict) ([], False) [0 ..< length vpoints] = Inl ?w"
        | (slv) p where "call_solver solver vpoints p = Inl ?w"
        by (auto simp: expr_solving_data_def expr_solving_dict_def solver_input_def Let_def
            bindE_eq_Inl split: if_splits)
      then show False
      proof cases
        case drv
        from foldE_error [OF this] driver_check_error show ?thesis by fastforce
      next
        case knw
        from foldE_error [OF this] known_point_error show ?thesis by fastforce
      next
        case slv
        from call_solver_error [OF this] show ?thesis by simp
      qed
    qed
  qed
  ultimately show ?thesis using count by blast
qed

theorem wrong_input_count_iff_witness:
  "(\<exists>dd. data_collecting real_ops (spec_methods real_ops) crank_exprs2 crank_mapping crank
         = Inr (dd, 2))
   \<and> 2 = length (filter (\<lambda>e. func e \<in> {PLA, PLAP}) crank_exprs2)
   \<and> vpoint_dof crank = 1
   \<and> expr_solving real_ops (spec_methods real_ops) no_solver crank_exprs2 crank_mapping crank
        [Some 90, Some 0]
      = Inl (ValueError (Wrong_input_count 2 1))
   \<and> (\<exists>dd. data_collecting real_ops (spec_methods real_ops) crank_exprs crank_mapping crank
         = Inr (dd, 1))
   \<and> expr_solving real_ops (spec_methods real_ops) no_solver crank_exprs crank_mapping crank
        [Some 90]
      = Inr [Single (Some 0, Some 0), Single (Some 0, Some 1)]"
proof -
  from crank_dc2 obtain dd2 where
    h2: "data_collecting real_ops (spec_methods real_ops) crank_exprs2 crank_mapping crank
         = Inr (dd2, 2)" ..
  from crank_dc obtain dd1 where
    h1: "data_collecting real_ops (spec_methods real_ops) crank_exprs crank_mapping crank
         = Inr (dd1, 1)" ..
  show ?thesis
    using wrong_input_count_iff [OF h2, of no_solver "[Some 90, Some 0]"]
      wrong_input_count_iff [OF h1, of no_solver "[Some 90]"]
      crank_dc crank_dc2 crank_dof crank_count_error crank_solved
    by simp
qed

text \<open>A failure of the steps before the solver, or of the loop of the known points, is the
  failure of the call.\<close>

lemma expr_solving_early_failure:
  "expr_solving_dict ops cls exprs mapping vpoints angles = Inl e \<Longrightarrow>
   expr_solving ops cls solver exprs mapping vpoints angles = Inl e"
  "expr_solving_dict ops cls exprs mapping vpoints angles = Inr dd \<Longrightarrow>
   solver_input mapping dd vpoints = Inl e \<Longrightarrow>
   expr_solving ops cls solver exprs mapping vpoints angles = Inl e"
  by (simp_all add: expr_solving_def expr_solving_data_def)




section \<open>Expression synthesis: the main loop terminates\<close>




lemma keys_update: "status_keys (AList.update k v status) = insert k (status_keys status)"
  by (simp add: status_keys_def dom_update)
















lemma foldl_grows:
  fixes g :: "'s \<Rightarrow> 'k set"
  assumes "\<And>s x. g s \<subseteq> g (f s x)"
  shows "g s \<subseteq> g (foldl f s xs)"
proof (induction xs arbitrary: s)
  case Nil
  then show ?case by simp
next
  case (Cons x xs)
  have "g s \<subseteq> g (f s x)" by (rule assms)
  also have "\<dots> \<subseteq> g (foldl f (f s x) xs)" by (rule Cons.IH)
  finally show ?case by simp
qed

lemma tc_init_joint_keys:
  "insert node (status_keys status)
   \<subseteq> status_keys (fst (tc_init_joint (status, vlinks) (node, vpoint)))"
proof (cases "links vpoint = []")
  case True
  then show ?thesis by (auto simp: tc_init_joint_def keys_update)
next
  case False
  let ?f = "\<lambda>sv' link.
       (if link = VLink_FRAME \<and> type vpoint = VJoint_R
        then AList.update node True (fst sv') else fst sv',
        case snd sv' link of
          None \<Rightarrow> (snd sv')(link \<mapsto> [node])
        | Some ns \<Rightarrow> (snd sv')(link \<mapsto> pyset_add ns node))"
  have step: "status_keys (fst sv) \<subseteq> status_keys (fst (?f sv l))" for sv l
    by (auto simp: keys_update)
  have "insert node (status_keys status) \<subseteq> status_keys (fst (AList.update node False status, vlinks))"
    by (auto simp: keys_update)
  also have "\<dots> \<subseteq> status_keys (fst (foldl ?f (AList.update node False status, vlinks) (links vpoint)))"
    using step by (rule foldl_grows [where g = "\<lambda>sv. status_keys (fst sv)"])
  finally show ?thesis
    using False by (simp add: tc_init_joint_def)
qed










section \<open>Expression synthesis: the lookups of the main loop\<close>



lemma update_items:
  "kv \<in> set (AList.update k v status) \<Longrightarrow> kv \<in> set status \<or> kv = (k, v)"
  by (induction status) (auto split: if_splits)




lemma foldE_total:
  assumes "Q s" and "\<And>t x. Q t \<Longrightarrow> x \<in> set xs \<Longrightarrow> \<exists>t'. f t x = Inr t' \<and> Q t'"
  shows "\<exists>s'. foldE f s xs = Inr s' \<and> Q s'"
  using assms
proof (induction xs arbitrary: s)
  case Nil
  then show ?case by simp
next
  case (Cons a as)
  from Cons.prems(2) [OF Cons.prems(1), of a] obtain t where t: "f s a = Inr t" "Q t" by auto
  have "\<exists>s'. foldE f t as = Inr s' \<and> Q s'"
    by (rule Cons.IH [OF t(2)]) (use Cons.prems(2) in auto)
  then show ?case using t(1) by simp
qed



















section \<open>Expression synthesis: what the code before the main loop establishes\<close>

lemma foldl_invariant:
  assumes "Q s" and "\<And>t x. Q t \<Longrightarrow> x \<in> set xs \<Longrightarrow> Q (f t x)"
  shows "Q (foldl f s xs)"
  using assms
proof (induction xs arbitrary: s)
  case Nil
  then show ?case by simp
next
  case (Cons a as)
  have "Q (f s a)" using Cons.prems by simp
  then show ?case using Cons.IH [of "f s a"] Cons.prems(2) by simp
qed

lemma foldl_adds:
  fixes g :: "'s \<Rightarrow> 'k set"
  assumes "\<And>s x. g s \<subseteq> g (f s x)" and "\<And>s x. h x \<subseteq> g (f s x)" and "x \<in> set xs"
  shows "h x \<subseteq> g (foldl f s xs)"
  using assms(3)
proof (induction xs arbitrary: s)
  case Nil
  then show ?case by simp
next
  case (Cons a as)
  show ?case
  proof (cases "x = a")
    case True
    have "h x \<subseteq> g (f s a)" using assms(2) True by simp
    also have "\<dots> \<subseteq> g (foldl f (f s a) as)" using assms(1) by (rule foldl_grows)
    finally show ?thesis by simp
  next
    case False
    then have "x \<in> set as" using Cons.prems by simp
    from Cons.IH [OF this] show ?thesis by simp
  qed
qed

lemma tc_init_joint_vlinks:
  "dom vl \<union> set (links v) \<subseteq> dom (snd (tc_init_joint (st, vl) (node, v)))"
proof (cases "links v = []")
  case True
  then show ?thesis by (simp add: tc_init_joint_def)
next
  case False
  let ?f = "\<lambda>sv' link.
       (if link = VLink_FRAME \<and> type v = VJoint_R
        then AList.update node True (fst sv') else fst sv',
        case snd sv' link of
          None \<Rightarrow> (snd sv')(link \<mapsto> [node])
        | Some ns \<Rightarrow> (snd sv')(link \<mapsto> pyset_add ns node))"
  have grow: "dom (snd sv) \<subseteq> dom (snd (?f sv l))" for sv l
    by (auto split: option.splits)
  have add: "{l} \<subseteq> dom (snd (?f sv l))" for sv l
    by (auto split: option.splits)
  have a: "dom vl \<subseteq> dom (snd (foldl ?f (AList.update node False st, vl) (links v)))"
    using foldl_grows [where g = "\<lambda>sv. dom (snd sv)" and f = ?f, OF grow,
        of "(AList.update node False st, vl)" "links v"]
    by simp
  have b: "l \<in> dom (snd (foldl ?f (AList.update node False st, vl) (links v)))"
    if "l \<in> set (links v)" for l
    using foldl_adds [where g = "\<lambda>sv. dom (snd sv)" and f = ?f and h = "\<lambda>l. {l}",
        OF grow add that, of "(AList.update node False st, vl)"]
    by simp
  show ?thesis
    using False a b by (auto simp: tc_init_joint_def)
qed

lemma tc_init_joint_members:
  assumes "\<forall>l ns. vl l = Some ns \<longrightarrow> (\<forall>f\<in>set ns. f < n)" and "node < n"
  shows "\<forall>l ns. snd (tc_init_joint (st, vl) (node, v)) l = Some ns \<longrightarrow> (\<forall>f\<in>set ns. f < n)"
proof (cases "links v = []")
  case True
  then show ?thesis using assms(1) by (simp add: tc_init_joint_def)
next
  case False
  let ?f = "\<lambda>sv' link.
       (if link = VLink_FRAME \<and> type v = VJoint_R
        then AList.update node True (fst sv') else fst sv',
        case snd sv' link of
          None \<Rightarrow> (snd sv')(link \<mapsto> [node])
        | Some ns \<Rightarrow> (snd sv')(link \<mapsto> pyset_add ns node))"
  let ?Q = "\<lambda>sv :: (nat \<times> bool) list \<times> (string \<rightharpoonup> nat list).
              \<forall>l ns. snd sv l = Some ns \<longrightarrow> (\<forall>f\<in>set ns. f < n)"
  have "?Q (foldl ?f (AList.update node False st, vl) (links v))"
  proof (rule foldl_invariant [where Q = ?Q])
    show "?Q (AList.update node False st, vl)" using assms(1) by simp
  next
    fix t :: "(nat \<times> bool) list \<times> (string \<rightharpoonup> nat list)" and x
    assume q: "?Q t"
    show "?Q (?f t x)"
    proof (cases "snd t x")
      case None
      then show ?thesis using q assms(2) by auto
    next
      case (Some ms)
      then have "\<forall>f\<in>set ms. f < n" using q by blast
      then have "\<forall>f\<in>set (pyset_add ms node). f < n"
        using assms(2) by (auto simp: pyset_add_def)
      then show ?thesis using q Some by auto
    qed
  qed
  then show ?thesis using False by (simp add: tc_init_joint_def)
qed

lemma tc_init_joint_items:
  "\<forall>kv\<in>set (fst (tc_init_joint (st, vl) (node, v))). kv \<in> set st \<or> fst kv = node"
proof (cases "links v = []")
  case True
  then show ?thesis by (auto simp: tc_init_joint_def dest!: update_items)
next
  case False
  let ?f = "\<lambda>sv' link.
       (if link = VLink_FRAME \<and> type v = VJoint_R
        then AList.update node True (fst sv') else fst sv',
        case snd sv' link of
          None \<Rightarrow> (snd sv')(link \<mapsto> [node])
        | Some ns \<Rightarrow> (snd sv')(link \<mapsto> pyset_add ns node))"
  let ?Q = "\<lambda>sv :: (nat \<times> bool) list \<times> (string \<rightharpoonup> nat list).
              \<forall>kv\<in>set (fst sv). kv \<in> set st \<or> fst kv = node"
  have "?Q (foldl ?f (AList.update node False st, vl) (links v))"
  proof (rule foldl_invariant [where Q = ?Q])
    show "?Q (AList.update node False st, vl)" by (auto dest!: update_items)
  next
    fix t :: "(nat \<times> bool) list \<times> (string \<rightharpoonup> nat list)" and x
    assume q: "?Q t"
    then show "?Q (?f t x)" by (auto dest!: update_items)
  qed
  then show ?thesis using False by (simp add: tc_init_joint_def)
qed

lemma enumerate_list_set:
  "iv \<in> set (enumerate_list xs) \<longleftrightarrow> fst iv < length xs \<and> snd iv = xs ! fst iv"
proof -
  obtain i v where iv: "iv = (i, v)" by (cases iv)
  have "(i, v) \<in> set (zip [0 ..< length xs] xs) \<longleftrightarrow> i < length xs \<and> v = xs ! i"
  proof
    assume "(i, v) \<in> set (zip [0 ..< length xs] xs)"
    then show "i < length xs \<and> v = xs ! i" by (auto simp: in_set_zip)
  next
    assume a: "i < length xs \<and> v = xs ! i"
    then have "zip [0 ..< length xs] xs ! i = (i, v)" by simp
    moreover have "i < length (zip [0 ..< length xs] xs)" using a by simp
    ultimately show "(i, v) \<in> set (zip [0 ..< length xs] xs)"
      using nth_mem by metis
  qed
  then show ?thesis
    unfolding iv enumerate_list_def by simp
qed

text \<open>The first loop: \<^verbatim>\<open>vlinks\<close> has every link of every joint and holds joint indices;
  every joint index is a key of \<^verbatim>\<open>status\<close>, and a key that is no joint index comes with
  its flag from the initial map.\<close>

lemma tc_init_fold:
  fixes vpoints :: "'f VPoint list" and status0 :: "(nat \<times> bool) list"
  defines "sv \<equiv> foldl tc_init_joint (status0, Map.empty) (enumerate_list vpoints)"
  shows "\<forall>v\<in>set vpoints. \<forall>l\<in>set (links v). \<exists>ns. snd sv l = Some ns"
    and "\<forall>l ns. snd sv l = Some ns \<longrightarrow> (\<forall>f\<in>set ns. f < length vpoints)"
    and "\<forall>kv\<in>set (fst sv). kv \<in> set status0 \<or> fst kv < length vpoints"
    and "\<forall>i<length vpoints. i \<in> status_keys (fst sv)"
proof -
  let ?n = "length vpoints"
  let ?xs = "enumerate_list vpoints"
  have grow_v: "dom (snd t) \<subseteq> dom (snd (tc_init_joint t x))"
    and add_v: "set (links (snd x)) \<subseteq> dom (snd (tc_init_joint t x))"
    for t :: "(nat \<times> bool) list \<times> (string \<rightharpoonup> nat list)" and x :: "nat \<times> 'f VPoint"
    using tc_init_joint_vlinks [of "snd t" "snd x" "fst t" "fst x"] by auto
  show "\<forall>v\<in>set vpoints. \<forall>l\<in>set (links v). \<exists>ns. snd sv l = Some ns"
  proof (intro ballI)
    fix v l assume "v \<in> set vpoints" and l: "l \<in> set (links v)"
    then obtain i where "i < ?n" "v = vpoints ! i" by (auto simp: in_set_conv_nth)
    then have "(i, v) \<in> set ?xs" by (simp add: enumerate_list_set)
    from foldl_adds [where g = "\<lambda>t. dom (snd t)" and f = tc_init_joint
        and h = "\<lambda>x. set (links (snd x))", OF grow_v add_v this, of "(status0, Map.empty)"] l
    show "\<exists>ns. snd sv l = Some ns" by (auto simp: sv_def)
  qed
  let ?Q = "\<lambda>t :: (nat \<times> bool) list \<times> (string \<rightharpoonup> nat list).
              (\<forall>l ns. snd t l = Some ns \<longrightarrow> (\<forall>f\<in>set ns. f < ?n))
              \<and> (\<forall>kv\<in>set (fst t). kv \<in> set status0 \<or> fst kv < ?n)"
  have "?Q (foldl tc_init_joint (status0, Map.empty) ?xs)"
  proof (rule foldl_invariant [where Q = ?Q])
    show "?Q (status0, Map.empty)" by simp
  next
    fix t :: "(nat \<times> bool) list \<times> (string \<rightharpoonup> nat list)" and x :: "nat \<times> 'f VPoint"
    assume q: "?Q t" and x: "x \<in> set ?xs"
    from x have lt: "fst x < ?n" by (simp add: enumerate_list_set)
    from q have m: "\<forall>l ns. snd t l = Some ns \<longrightarrow> (\<forall>f\<in>set ns. f < ?n)" by blast
    have a: "\<forall>l ns. snd (tc_init_joint t x) l = Some ns \<longrightarrow> (\<forall>f\<in>set ns. f < ?n)"
      using tc_init_joint_members [OF m lt, of "fst t" "snd x"] by simp
    have b: "\<forall>kv\<in>set (fst (tc_init_joint t x)). kv \<in> set status0 \<or> fst kv < ?n"
      using tc_init_joint_items [of "fst t" "snd t" "fst x" "snd x"] q lt by auto
    from a b show "?Q (tc_init_joint t x)" by blast
  qed
  then show "\<forall>l ns. snd sv l = Some ns \<longrightarrow> (\<forall>f\<in>set ns. f < length vpoints)"
    and "\<forall>kv\<in>set (fst sv). kv \<in> set status0 \<or> fst kv < length vpoints"
    unfolding sv_def by blast+
  have grow_k: "status_keys (fst t) \<subseteq> status_keys (fst (tc_init_joint t x))"
    and add_k: "{fst x} \<subseteq> status_keys (fst (tc_init_joint t x))"
    for t :: "(nat \<times> bool) list \<times> (string \<rightharpoonup> nat list)" and x :: "nat \<times> 'f VPoint"
    using tc_init_joint_keys [of "fst x" "fst t" "snd t" "snd x"] by auto
  show "\<forall>i<length vpoints. i \<in> status_keys (fst sv)"
  proof (intro allI impI)
    fix i assume "i < ?n"
    then have "(i, vpoints ! i) \<in> set ?xs" by (simp add: enumerate_list_set)
    from foldl_adds [where g = "\<lambda>t. status_keys (fst t)" and f = tc_init_joint
        and h = "\<lambda>x. {fst x}", OF grow_k add_k this, of "(status0, Map.empty)"]
    show "i \<in> status_keys (fst sv)" by (simp add: sv_def)
  qed
qed

text \<open>The replacement keeps the length of the joint list, and a replacing joint is on
  links of the joints that it is built from.\<close>

lemma tc_replace_links:
  assumes "tc_replace vpoint base vps node = Inr vps'"
    and "\<forall>l\<in>set (links vpoint). l \<in> L"
    and "length vps = n \<and> (\<forall>v\<in>set vps. \<forall>l\<in>set (links v). l \<in> L)"
  shows "length vps' = n \<and> (\<forall>v\<in>set vps'. \<forall>l\<in>set (links v). l \<in> L)"
proof (cases "node < length vps")
  case False
  then show ?thesis using assms(1) by (simp add: tc_replace_def nth_err_def)
next
  case lt: True
  show ?thesis
  proof (cases "node = base \<or> type (vps ! node) \<noteq> VJoint_R")
    case True
    then show ?thesis using assms(1,3) lt by (auto simp: tc_replace_def nth_err_def)
  next
    case False
    show ?thesis
    proof (cases "links vpoint")
      case Nil
      then show ?thesis using assms(1) lt False by (simp add: tc_replace_def nth_err_def)
    next
      case (Cons l0 ls)
      let ?new = "c_slider_joint
                    ([l0] @ filter (\<lambda>l. l \<notin> set (links vpoint)) (links (vps ! node)))
                    VJoint_RP (angle vpoint) (vpoint_x (vps ! node)) (vpoint_y (vps ! node))"
      have v': "vps' = vps[node := ?new]"
        using assms(1) lt False Cons by (auto simp: tc_replace_def nth_err_def)
      have old: "\<forall>l\<in>set (links (vps ! node)). l \<in> L"
        using assms(3) lt by auto
      have new: "\<forall>l\<in>set (links ?new). l \<in> L"
        using assms(2) old Cons by (auto simp: c_slider_joint_def)
      have "set vps' \<subseteq> insert ?new (set vps)"
        unfolding v' by (rule set_update_subset_insert)
      then show ?thesis using new assms(3) v' by auto
    qed
  qed
qed



text \<open>The replacement raises nothing: its reads of the joint list are in range, and its
  lookups have a value.\<close>

lemma tc_replace_total:
  assumes "node < length vps" and "links vpoint \<noteq> []"
  shows "\<exists>vps'. tc_replace vpoint base vps node = Inr vps'"
  using assms by (cases "links vpoint") (auto simp: tc_replace_def nth_err_def)

lemma tc_normalize_base_total:
  assumes iter: "\<forall>ns. set (set_iter ns) \<subseteq> set ns"
    and mem: "\<forall>l ns. M l = Some ns \<longrightarrow> (\<forall>f\<in>set ns. f < n)"
    and q: "length vps = n \<and> (\<forall>v\<in>set vps. \<forall>l\<in>set (links v). l \<in> dom M)"
    and base: "base < n"
  shows "\<exists>vps'. tc_normalize_base cls set_iter M vps base = Inr vps'
           \<and> length vps' = n \<and> (\<forall>v\<in>set vps'. \<forall>l\<in>set (links v). l \<in> dom M)"
proof -
  let ?vp = "vps ! base"
  let ?Q = "\<lambda>cur :: 'a VPoint list.
              length cur = n \<and> (\<forall>v\<in>set cur. \<forall>l\<in>set (links v). l \<in> dom M)"
  have lt: "base < length vps" using q base by simp
  then have vl: "\<forall>l\<in>set (links ?vp). l \<in> dom M" using q by auto
  show ?thesis
  proof (cases "type ?vp \<noteq> VJoint_P \<or> \<not> grounded cls ?vp")
    case True
    then show ?thesis using q lt by (auto simp: tc_normalize_base_def nth_err_def)
  next
    case False
    let ?f = "\<lambda>cur link. bindE (lookup_err M link)
                (\<lambda>nodes. foldE (tc_replace ?vp base) cur (set_iter nodes))"
    have "\<exists>vps'. foldE ?f vps (drop 1 (links ?vp)) = Inr vps' \<and> ?Q vps'"
    proof (rule foldE_total [where Q = ?Q])
      show "?Q vps" using q .
    next
      fix t :: "'a VPoint list" and l
      assume qt: "?Q t" and l: "l \<in> set (drop 1 (links ?vp))"
      from l have l': "l \<in> set (links ?vp)" by (rule in_set_dropD)
      then have ne: "links ?vp \<noteq> []" by auto
      from l' vl obtain ns where ns: "M l = Some ns" by auto
      have "\<exists>t'. foldE (tc_replace ?vp base) t (set_iter ns) = Inr t' \<and> ?Q t'"
      proof (rule foldE_total [where Q = ?Q])
        show "?Q t" using qt .
      next
        fix u :: "'a VPoint list" and node
        assume qu: "?Q u" and "node \<in> set (set_iter ns)"
        then have "node \<in> set ns" using iter by blast
        then have "node < length u" using mem ns qu by auto
        from tc_replace_total [OF this ne] obtain u' where
          u': "tc_replace ?vp base u node = Inr u'" ..
        from tc_replace_links [OF u' vl qu] u'
        show "\<exists>u'. tc_replace ?vp base u node = Inr u' \<and> ?Q u'" by blast
      qed
      then show "\<exists>t'. ?f t l = Inr t' \<and> ?Q t'"
        using ns by (simp add: lookup_err_def)
    qed
    then show ?thesis
      using False lt by (simp add: tc_normalize_base_def nth_err_def)
  qed
qed

lemma tc_normalize_total:
  assumes "\<forall>ns. set (set_iter ns) \<subseteq> set ns"
  shows "\<exists>vps'. tc_normalize cls set_iter vps = Inr vps'"
proof -
  let ?M = "snd (foldl tc_init_joint ([], Map.empty) (enumerate_list vps))"
  let ?n = "length vps"
  let ?Q = "\<lambda>cur :: 'a VPoint list.
              length cur = ?n \<and> (\<forall>v\<in>set cur. \<forall>l\<in>set (links v). l \<in> dom ?M)"
  have mem: "\<forall>l ns. ?M l = Some ns \<longrightarrow> (\<forall>f\<in>set ns. f < ?n)"
    using tc_init_fold(2) [where vpoints = vps and ?status0.0 = "[]"] .
  have q: "?Q vps"
    using tc_init_fold(1) [where vpoints = vps and ?status0.0 = "[]"] by blast
  have "\<exists>vps'. foldE (tc_normalize_base cls set_iter ?M) vps [0 ..< ?n] = Inr vps' \<and> ?Q vps'"
  proof (rule foldE_total [where Q = ?Q])
    show "?Q vps" using q .
  next
    fix t :: "'a VPoint list" and base
    assume "?Q t" and "base \<in> set [0 ..< ?n]"
    then have "base < ?n" by simp
    from tc_normalize_base_total [OF assms mem \<open>?Q t\<close> this]
    show "\<exists>t'. tc_normalize_base cls set_iter ?M t base = Inr t' \<and> ?Q t'" .
  qed
  then show ?thesis by (auto simp: tc_normalize_def)
qed







section \<open>Expression synthesis: evaluated examples\<close>

lemmas tc_eval_defs =
  tc_prepare_def tc_start_def tc_normalize_def tc_normalize_base_def tc_replace_def tc_init_joint_def
  tc_pos_def tc_input_def enumerate_list_def nth_err_def lookup_err_def status_get_def
  pyset_add_def VLink_FRAME_def spec_methods_def rjoint_def bindE_def

lemma upt4: "[0 ..< 4] = [0, 1, 2, 3]" by (simp add: upt_rec)
lemma upt5: "[0 ..< 5] = [0, 1, 2, 3, 4]" by (simp add: upt_rec)


lemmas tc_step_defs =
  tc_step_def tc_revolute_def tc_prismatic_def tc_slider_def tc_friend_def tc_cond_def
  get_reliable_friend_def get_not_base_friend_def get_base_friend_def get_input_base_def
  skip_def is_all_lock_def status_keys_def clockwise_def add_pla_def add_pllp_def add_plpp_def
  add_pxy_def Expr_fresh_def real_ops_def lift2_def cmp2_def



lemma held_crank_t_config:
  "t_config real_ops (spec_methods real_ops) id held_crank [(4, 2)] []
   = Some (Inr (add_pla (add_pllp [] (P_LABEL, 0) (L_LABEL, 0) (L_LABEL, 1) (P_LABEL, 3) (P_LABEL, 4))
                  (P_LABEL, 4) (L_LABEL, 2) (A_LABEL, 0) (P_LABEL, 2),
                [(0, True), (1, False), (2, True), (3, True), (4, True)]))"
  apply (simp add: t_config_def tc_run_def tc_loop_def)
  apply (simp add: tc_eval_defs held_crank_def upt5 add_pla_def Expr_fresh_def)
  apply (simp add: tc_loop_def while_option_unfold tc_step_defs tc_eval_defs)
  done

lemma fourbar_t_config:
  "t_config real_ops (spec_methods real_ops) id fourbar [(0, 1)] []
   = Some (Inr (add_pllp (add_pla [] (P_LABEL, 0) (L_LABEL, 0) (A_LABEL, 0) (P_LABEL, 1))
                  (P_LABEL, 1) (L_LABEL, 1) (L_LABEL, 2) (P_LABEL, 3) (P_LABEL, 2),
                [(0, True), (1, True), (2, True), (3, True)]))"
  apply (simp add: t_config_def tc_run_def tc_loop_def)
  apply (simp add: tc_eval_defs fourbar_def upt4 add_pla_def Expr_fresh_def)
  apply (simp add: tc_loop_def while_option_unfold tc_step_defs tc_eval_defs)
  done








text \<open>
  Claim C6, evaluated on the linkage \<open>held_crank\<close> with the input pair (4, 2). After
  eight iterations of the main loop the current joint is the input target 2, its base 4
  has been solved, and \<^verbatim>\<open>skip_times\<close> is 2. The next iteration takes the PLA branch: it
  emits the PLA expression and marks joint 2 solved, and \<^verbatim>\<open>skip_times\<close> is still 2 and
  not 0. The loop then reaches \<^verbatim>\<open>around\<close> skips and breaks with joint 1 unsolved,
  although both friends of joint 1 (joints 2 and 0) are solved in the final status.
\<close>

theorem pla_branch_keeps_skip_times:
  "(case tc_prepare real_ops (spec_methods real_ops) id held_crank [(4, 2)] [] of
      Inl e \<Rightarrow> False
    | Inr (env, s0) \<Rightarrow>
        tc_cond ((tc_step env ^^ 8) s0)
        \<and> tc_node ((tc_step env ^^ 8) s0) = 2
        \<and> tc_skip_times ((tc_step env ^^ 8) s0) = 2
        \<and> status_get (tc_status ((tc_step env ^^ 8) s0)) 2 = Inr False
        \<and> tc_exprs ((tc_step env ^^ 9) s0)
          = add_pla (tc_exprs ((tc_step env ^^ 8) s0))
              (P_LABEL, 4) (L_LABEL, 2) (A_LABEL, 0) (P_LABEL, 2)
        \<and> status_get (tc_status ((tc_step env ^^ 9) s0)) 2 = Inr True
        \<and> tc_skip_times ((tc_step env ^^ 9) s0) = 2
        \<and> get_reliable_friend env [(0, True), (1, False), (2, True), (3, True), (4, True)] 1
          = Inr (Some (2, 0)))
   \<and> t_config real_ops (spec_methods real_ops) id held_crank [(4, 2)] []
     = Some (Inr (add_pla
                    (add_pllp [] (P_LABEL, 0) (L_LABEL, 0) (L_LABEL, 1) (P_LABEL, 3) (P_LABEL, 4))
                    (P_LABEL, 4) (L_LABEL, 2) (A_LABEL, 0) (P_LABEL, 2),
                  [(0, True), (1, False), (2, True), (3, True), (4, True)]))"
proof -
  have steps:
    "(case tc_prepare real_ops (spec_methods real_ops) id held_crank [(4, 2)] [] of
      Inl e \<Rightarrow> False
    | Inr (env, s0) \<Rightarrow>
        tc_cond ((tc_step env ^^ 8) s0)
        \<and> tc_node ((tc_step env ^^ 8) s0) = 2
        \<and> tc_skip_times ((tc_step env ^^ 8) s0) = 2
        \<and> status_get (tc_status ((tc_step env ^^ 8) s0)) 2 = Inr False
        \<and> tc_exprs ((tc_step env ^^ 9) s0)
          = add_pla (tc_exprs ((tc_step env ^^ 8) s0))
              (P_LABEL, 4) (L_LABEL, 2) (A_LABEL, 0) (P_LABEL, 2)
        \<and> status_get (tc_status ((tc_step env ^^ 9) s0)) 2 = Inr True
        \<and> tc_skip_times ((tc_step env ^^ 9) s0) = 2
        \<and> get_reliable_friend env [(0, True), (1, False), (2, True), (3, True), (4, True)] 1
          = Inr (Some (2, 0)))"
    apply (simp add: tc_eval_defs held_crank_def upt5 add_pla_def Expr_fresh_def)
    apply (simp add: eval_nat_numeral tc_step_defs tc_eval_defs reliable_links.simps)
    done
  show ?thesis
    using steps held_crank_t_config by simp
qed

section \<open>The replacement of the friends of P joints\<close>

lemma slider_dc:
  "dc_normalize slider_pair
   = Inr [slider_pair ! 0, c_slider_joint [''L1'', ''L3''] VJoint_RP (Some 30) (Some 1) (Some 0)]"
  by (simp add: eval_defs slider_pair_def rjoint_def upt2 bindE_def c_slider_joint_def)

lemma slider_tc:
  "tc_normalize (spec_methods real_ops) id slider_pair = Inr slider_pair"
  by (simp add: tc_eval_defs slider_pair_def upt2)


text \<open>
  Claim C7, evaluated on \<open>slider_pair\<close>: a P joint on the links \<open>L1\<close> and \<open>L2\<close>, none of
  them the ground, and a revolute joint on \<open>L2\<close> and \<open>L3\<close>. \<^verbatim>\<open>data_collecting\<close> replaces
  the revolute joint by an RP joint on \<open>L1\<close> and \<open>L3\<close> with the angle of the P joint;
  \<^verbatim>\<open>t_config\<close> skips the P joint, which is not grounded, and leaves the list as it is.
\<close>

theorem replacement_differs_ungrounded:
  "dc_normalize slider_pair
   = Inr [slider_pair ! 0, c_slider_joint [''L1'', ''L3''] VJoint_RP (Some 30) (Some 1) (Some 0)]
   \<and> tc_normalize (spec_methods real_ops) id slider_pair = Inr slider_pair
   \<and> grounded (spec_methods real_ops) (slider_pair ! 0) = False
   \<and> dc_normalize slider_pair \<noteq> tc_normalize (spec_methods real_ops) id slider_pair"
  using slider_dc slider_tc
  by (simp add: spec_methods_def slider_pair_def VLink_FRAME_def rjoint_def c_slider_joint_def)

section \<open>The caller's joints are not written\<close>

lemma frame_refl: "frame st st"
  by (simp add: frame_def)

lemma frame_trans: "frame st st' \<Longrightarrow> frame st' st'' \<Longrightarrow> frame st st''"
  unfolding frame_def
  by (metis (no_types, lifting) le_trans min.absorb2 take_take min.commute)

lemma frame_copy: "frame st (fst (list_copy st a))"
  by (simp add: frame_def list_copy_def)

lemma frame_assign:
  assumes "length (seqs st0) \<le> l"
  shows "frame st0 st \<Longrightarrow> frame st0 (store_assign st l node v)"
  using assms by (auto simp: frame_def store_assign_def take_update_cancel)

lemma foldS_invariant:
  assumes "Q st" and "\<And>x t. Q t \<Longrightarrow> Q (snd (f x t))"
  shows "Q (snd (foldS f xs st))"
  using assms(1)
proof (induction xs arbitrary: st)
  case Nil
  then show ?case by simp
next
  case (Cons x xs)
  obtain e t where ft: "f x st = (e, t)" by (cases "f x st")
  have qt: "Q t" using assms(2) [OF Cons.prems, of x] ft by simp
  show ?case
  proof (cases e)
    case None
    then show ?thesis using Cons.IH [OF qt] ft by simp
  next
    case (Some err)
    then show ?thesis using qt ft by simp
  qed
qed

lemma tc_replace_store_frame:
  "length (seqs st0) \<le> l \<Longrightarrow> frame st0 st \<Longrightarrow> frame st0 (snd (tc_replace_store vpoint base l node st))"
  by (auto simp: tc_replace_store_def frame_assign split: sum.splits)

lemma dc_replace_store_frame:
  "length (seqs st0) \<le> l \<Longrightarrow> frame st0 st \<Longrightarrow> frame st0 (snd (dc_replace_store vpoint base l node st))"
  by (auto simp: dc_replace_store_def frame_assign split: sum.splits)

lemma tc_normalize_base_store_frame:
  assumes "length (seqs st0) \<le> l" and "frame st0 st"
  shows "frame st0 (snd (tc_normalize_base_store cls set_iter vlinks l base st))"
proof -
  have inner: "frame st0 (snd (foldS (tc_replace_store vpoint base l) ns t))"
    if "frame st0 t" for vpoint ns t
    using that by (rule foldS_invariant) (rule tc_replace_store_frame [OF assms(1)])
  have outer: "frame st0 (snd (foldS (\<lambda>link st'.
                     case lookup_err vlinks link of
                       Inl e \<Rightarrow> (Some e, st')
                     | Inr nds \<Rightarrow> foldS (tc_replace_store vpoint base l) (set_iter nds) st')
              ls st))" for vpoint ls
    using assms(2)
  proof (rule foldS_invariant)
    fix x t assume "frame st0 t"
    then show "frame st0 (snd (case lookup_err vlinks x of
                       Inl e \<Rightarrow> (Some e, t)
                     | Inr nds \<Rightarrow> foldS (tc_replace_store vpoint base l) (set_iter nds) t))"
      using inner by (cases "lookup_err vlinks x") auto
  qed
  show ?thesis
    using assms(2) outer
    by (auto simp: tc_normalize_base_store_def split: sum.splits)
qed

lemma dc_normalize_base_store_frame:
  assumes "length (seqs st0) \<le> l" and "frame st0 st"
  shows "frame st0 (snd (dc_normalize_base_store vlinks l base st))"
proof -
  have inner: "frame st0 (snd (foldS (dc_replace_store vpoint base l) ns t))"
    if "frame st0 t" for vpoint ns t
    using that by (rule foldS_invariant) (rule dc_replace_store_frame [OF assms(1)])
  have outer: "frame st0 (snd (foldS (\<lambda>link st'.
                     case lookup_err vlinks link of
                       Inl e \<Rightarrow> (Some e, st')
                     | Inr nds \<Rightarrow> foldS (dc_replace_store vpoint base l) nds st')
              ls st))" for vpoint ls
    using assms(2)
  proof (rule foldS_invariant)
    fix x t assume "frame st0 t"
    then show "frame st0 (snd (case lookup_err vlinks x of
                       Inl e \<Rightarrow> (Some e, t)
                     | Inr nds \<Rightarrow> foldS (dc_replace_store vpoint base l) nds t))"
      using inner by (cases "lookup_err vlinks x") auto
  qed
  show ?thesis
    using assms(2) outer
    by (auto simp: dc_normalize_base_store_def split: sum.splits)
qed

lemma tc_normalize_store_frame:
  assumes "length (seqs st0) \<le> l" and "frame st0 st"
  shows "frame st0 (snd (tc_normalize_store cls set_iter l st))"
  unfolding tc_normalize_store_def
  using assms(2) by (rule foldS_invariant) (rule tc_normalize_base_store_frame [OF assms(1)])

lemma dc_normalize_store_frame:
  assumes "length (seqs st0) \<le> l" and "frame st0 st"
  shows "frame st0 (snd (dc_normalize_store l st))"
  unfolding dc_normalize_store_def
  using assms(2) by (rule foldS_invariant) (rule dc_normalize_base_store_frame [OF assms(1)])

lemma t_config_store_frame:
  "frame st (snd (t_config_store ops cls set_iter st a inputs status0))"
proof -
  have "frame st (snd (tc_normalize_store cls set_iter (length (seqs st)) (fst (list_copy st a))))"
    by (rule tc_normalize_store_frame) (simp_all add: frame_copy)
  then show ?thesis
    by (auto simp: t_config_store_def frame_refl list_copy_def split: prod.splits option.splits)
qed

lemma data_collecting_store_frame:
  "frame st (snd (data_collecting_store ops cls exprs mapping st a))"
proof -
  have "frame st (snd (dc_normalize_store (length (seqs st)) (fst (list_copy st a))))"
    by (rule dc_normalize_store_frame) (simp_all add: frame_copy)
  then show ?thesis
    by (auto simp: data_collecting_store_def list_copy_def split: prod.splits option.splits)
qed

lemma frame_seq: "frame st st' \<Longrightarrow> a < length (seqs st) \<Longrightarrow> seqs st' ! a = seqs st ! a"
  unfolding frame_def by (metis nth_take)

lemma frame_obj: "frame st st' \<Longrightarrow> b < length (objs st) \<Longrightarrow> objs st' ! b = objs st ! b"
  unfolding frame_def by (metis nth_take)

lemma store_get_deref:
  assumes "valid_refs st l"
  shows "store_get st l node = nth_err (deref st l) node"
proof (cases "node < length (seqs st ! l)")
  case True
  then have "seqs st ! l ! node < length (objs st)"
    using assms by (auto simp: valid_refs_def list_all_length)
  then show ?thesis
    using True by (simp add: store_get_def nth_err_def deref_def)
next
  case False
  then show ?thesis by (simp add: store_get_def nth_err_def deref_def)
qed

lemma store_assign_deref:
  assumes "valid_refs st l" and "node < length (deref st l)"
  shows "valid_refs (store_assign st l node v) l
       \<and> deref (store_assign st l node v) l = (deref st l)[node := v]"
proof -
  let ?sq = "seqs st ! l"
  from assms have l: "l < length (seqs st)" and refs: "\<forall>i<length ?sq. ?sq ! i < length (objs st)"
    and node: "node < length ?sq"
    by (auto simp: valid_refs_def list_all_length deref_def)
  have v: "valid_refs (store_assign st l node v) l"
    using l refs node
    by (auto simp: valid_refs_def store_assign_def list_all_length nth_list_update less_Suc_eq)
  have "map (\<lambda>a. (objs st @ [v]) ! a) (?sq[node := length (objs st)]) = (map (\<lambda>a. objs st ! a) ?sq)[node := v]"
  proof (rule nth_equalityI)
    show "length (map (\<lambda>a. (objs st @ [v]) ! a) (?sq[node := length (objs st)]))
          = length ((map (\<lambda>a. objs st ! a) ?sq)[node := v])"
      by simp
  next
    fix i assume "i < length (map (\<lambda>a. (objs st @ [v]) ! a) (?sq[node := length (objs st)]))"
    then have i: "i < length ?sq" by simp
    show "map (\<lambda>a. (objs st @ [v]) ! a) (?sq[node := length (objs st)]) ! i
          = (map (\<lambda>a. objs st ! a) ?sq)[node := v] ! i"
      using i refs by (cases "i = node") (simp_all add: nth_list_update nth_append)
  qed
  then have "deref (store_assign st l node v) l = (deref st l)[node := v]"
    using l by (simp add: deref_def store_assign_def)
  with v show ?thesis by simp
qed

lemma fold_simulation:
  assumes step: "\<And>x st vps. R st vps \<Longrightarrow>
            (case f vps x of
               Inl e \<Rightarrow> fst (g x st) = Some e
             | Inr vps' \<Rightarrow> fst (g x st) = None \<and> R (snd (g x st)) vps')"
    and "R st vps"
  shows "case foldE f vps xs of
           Inl e \<Rightarrow> fst (foldS g xs st) = Some e
         | Inr vps' \<Rightarrow> fst (foldS g xs st) = None \<and> R (snd (foldS g xs st)) vps'"
  using assms(2)
proof (induction xs arbitrary: st vps)
  case Nil
  then show ?case by simp
next
  case (Cons x xs)
  obtain e t where g: "g x st = (e, t)" by (cases "g x st")
  show ?case
  proof (cases "f vps x")
    case (Inl err)
    then show ?thesis using step [OF Cons.prems, of x] g by simp
  next
    case (Inr vps')
    then have e: "e = None" and r: "R t vps'"
      using step [OF Cons.prems, of x] g by simp_all
    from Cons.IH [OF r] show ?thesis
      using Inr g e by (cases "foldE f vps' xs") simp_all
  qed
qed

lemma tc_replace_sim:
  assumes "sim l st vps"
  shows "case tc_replace vpoint base vps node of
           Inl e \<Rightarrow> fst (tc_replace_store vpoint base l node st) = Some e
         | Inr vps' \<Rightarrow> fst (tc_replace_store vpoint base l node st) = None
                      \<and> sim l (snd (tc_replace_store vpoint base l node st)) vps'"
proof -
  from assms have v: "valid_refs st l" and d: "deref st l = vps" by (simp_all add: sim_def)
  show ?thesis
  proof (cases "node < length vps")
    case False
    then show ?thesis
      using d by (simp add: tc_replace_def tc_replace_store_def store_get_deref [OF v] nth_err_def)
  next
    case True
    then have n: "node < length (deref st l)" using d by simp
    show ?thesis
      using True d assms store_assign_deref [OF v n]
      by (auto simp: tc_replace_def tc_replace_store_def store_get_deref [OF v] nth_err_def sim_def
          split: sum.splits)
  qed
qed

lemma dc_replace_sim:
  assumes "sim l st vps"
  shows "case dc_replace vpoint base vps node of
           Inl e \<Rightarrow> fst (dc_replace_store vpoint base l node st) = Some e
         | Inr vps' \<Rightarrow> fst (dc_replace_store vpoint base l node st) = None
                      \<and> sim l (snd (dc_replace_store vpoint base l node st)) vps'"
proof -
  from assms have v: "valid_refs st l" and d: "deref st l = vps" by (simp_all add: sim_def)
  show ?thesis
  proof (cases "node < length vps")
    case False
    then show ?thesis
      using d by (simp add: dc_replace_def dc_replace_store_def store_get_deref [OF v] nth_err_def)
  next
    case True
    then have n: "node < length (deref st l)" using d by simp
    show ?thesis
      using True d assms store_assign_deref [OF v n]
      by (auto simp: dc_replace_def dc_replace_store_def store_get_deref [OF v] nth_err_def sim_def
          split: sum.splits)
  qed
qed

lemma tc_normalize_base_sim:
  fixes vps :: "'f VPoint list"
  assumes "sim l st vps"
  shows "case tc_normalize_base cls set_iter vlinks vps base of
           Inl e \<Rightarrow> fst (tc_normalize_base_store cls set_iter vlinks l base st) = Some e
         | Inr vps' \<Rightarrow> fst (tc_normalize_base_store cls set_iter vlinks l base st) = None
                      \<and> sim l (snd (tc_normalize_base_store cls set_iter vlinks l base st)) vps'"
proof -
  from assms have v: "valid_refs st l" and d: "deref st l = vps" by (simp_all add: sim_def)
  have links: "case foldE (\<lambda>vps link. bindE (lookup_err vlinks link)
                         (\<lambda>nds. foldE (tc_replace vpoint base) vps (set_iter nds))) vps ls of
           Inl e \<Rightarrow> fst (foldS (\<lambda>link st'. case lookup_err vlinks link of
                       Inl e \<Rightarrow> (Some e, st')
                     | Inr nds \<Rightarrow> foldS (tc_replace_store vpoint base l) (set_iter nds) st') ls st) = Some e
         | Inr vps' \<Rightarrow> fst (foldS (\<lambda>link st'. case lookup_err vlinks link of
                       Inl e \<Rightarrow> (Some e, st')
                     | Inr nds \<Rightarrow> foldS (tc_replace_store vpoint base l) (set_iter nds) st') ls st) = None
                \<and> sim l (snd (foldS (\<lambda>link st'. case lookup_err vlinks link of
                       Inl e \<Rightarrow> (Some e, st')
                     | Inr nds \<Rightarrow> foldS (tc_replace_store vpoint base l) (set_iter nds) st') ls st)) vps'"
    for vpoint ls
  proof (rule fold_simulation [where R = "sim l"])
    fix x and t :: "'f store" and ws :: "'f VPoint list"
    assume r: "sim l t ws"
    show "case bindE (lookup_err vlinks x) (\<lambda>nds. foldE (tc_replace vpoint base) ws (set_iter nds)) of
            Inl e \<Rightarrow> fst (case lookup_err vlinks x of
                       Inl e \<Rightarrow> (Some e, t)
                     | Inr nds \<Rightarrow> foldS (tc_replace_store vpoint base l) (set_iter nds) t) = Some e
          | Inr vps' \<Rightarrow> fst (case lookup_err vlinks x of
                       Inl e \<Rightarrow> (Some e, t)
                     | Inr nds \<Rightarrow> foldS (tc_replace_store vpoint base l) (set_iter nds) t) = None
               \<and> sim l (snd (case lookup_err vlinks x of
                       Inl e \<Rightarrow> (Some e, t)
                     | Inr nds \<Rightarrow> foldS (tc_replace_store vpoint base l) (set_iter nds) t)) vps'"
    proof (cases "lookup_err vlinks x")
      case (Inl e)
      then show ?thesis by simp
    next
      case (Inr nds)
      have "case foldE (tc_replace vpoint base) ws (set_iter nds) of
              Inl e \<Rightarrow> fst (foldS (tc_replace_store vpoint base l) (set_iter nds) t) = Some e
            | Inr vps' \<Rightarrow> fst (foldS (tc_replace_store vpoint base l) (set_iter nds) t) = None
                 \<and> sim l (snd (foldS (tc_replace_store vpoint base l) (set_iter nds) t)) vps'"
        using tc_replace_sim r by (rule fold_simulation [where R = "sim l"])
      then show ?thesis using Inr by (auto split: sum.splits)
    qed
  next
    show "sim l st vps" by fact
  qed
  show ?thesis
  proof (cases "nth_err vps base")
    case (Inl e)
    then show ?thesis
      using d by (simp add: tc_normalize_base_def tc_normalize_base_store_def store_get_deref [OF v])
  next
    case (Inr vpoint)
    then show ?thesis
      using d assms links [of vpoint "drop 1 (links vpoint)"]
      by (auto simp: tc_normalize_base_def tc_normalize_base_store_def store_get_deref [OF v]
          split: sum.splits)
  qed
qed

lemma dc_normalize_base_sim:
  fixes vps :: "'f VPoint list"
  assumes "sim l st vps"
  shows "case dc_normalize_base vlinks vps base of
           Inl e \<Rightarrow> fst (dc_normalize_base_store vlinks l base st) = Some e
         | Inr vps' \<Rightarrow> fst (dc_normalize_base_store vlinks l base st) = None
                      \<and> sim l (snd (dc_normalize_base_store vlinks l base st)) vps'"
proof -
  from assms have v: "valid_refs st l" and d: "deref st l = vps" by (simp_all add: sim_def)
  have links: "case foldE (\<lambda>vps link. bindE (lookup_err vlinks link)
                         (\<lambda>nds. foldE (dc_replace vpoint base) vps nds)) vps ls of
           Inl e \<Rightarrow> fst (foldS (\<lambda>link st'. case lookup_err vlinks link of
                       Inl e \<Rightarrow> (Some e, st')
                     | Inr nds \<Rightarrow> foldS (dc_replace_store vpoint base l) nds st') ls st) = Some e
         | Inr vps' \<Rightarrow> fst (foldS (\<lambda>link st'. case lookup_err vlinks link of
                       Inl e \<Rightarrow> (Some e, st')
                     | Inr nds \<Rightarrow> foldS (dc_replace_store vpoint base l) nds st') ls st) = None
                \<and> sim l (snd (foldS (\<lambda>link st'. case lookup_err vlinks link of
                       Inl e \<Rightarrow> (Some e, st')
                     | Inr nds \<Rightarrow> foldS (dc_replace_store vpoint base l) nds st') ls st)) vps'"
    for vpoint ls
  proof (rule fold_simulation [where R = "sim l"])
    fix x and t :: "'f store" and ws :: "'f VPoint list"
    assume r: "sim l t ws"
    show "case bindE (lookup_err vlinks x) (\<lambda>nds. foldE (dc_replace vpoint base) ws nds) of
            Inl e \<Rightarrow> fst (case lookup_err vlinks x of
                       Inl e \<Rightarrow> (Some e, t)
                     | Inr nds \<Rightarrow> foldS (dc_replace_store vpoint base l) nds t) = Some e
          | Inr vps' \<Rightarrow> fst (case lookup_err vlinks x of
                       Inl e \<Rightarrow> (Some e, t)
                     | Inr nds \<Rightarrow> foldS (dc_replace_store vpoint base l) nds t) = None
               \<and> sim l (snd (case lookup_err vlinks x of
                       Inl e \<Rightarrow> (Some e, t)
                     | Inr nds \<Rightarrow> foldS (dc_replace_store vpoint base l) nds t)) vps'"
    proof (cases "lookup_err vlinks x")
      case (Inl e)
      then show ?thesis by simp
    next
      case (Inr nds)
      have "case foldE (dc_replace vpoint base) ws nds of
              Inl e \<Rightarrow> fst (foldS (dc_replace_store vpoint base l) nds t) = Some e
            | Inr vps' \<Rightarrow> fst (foldS (dc_replace_store vpoint base l) nds t) = None
                 \<and> sim l (snd (foldS (dc_replace_store vpoint base l) nds t)) vps'"
        using dc_replace_sim r by (rule fold_simulation [where R = "sim l"])
      then show ?thesis using Inr by (auto split: sum.splits)
    qed
  next
    show "sim l st vps" by fact
  qed
  show ?thesis
  proof (cases "nth_err vps base")
    case (Inl e)
    then show ?thesis
      using d by (simp add: dc_normalize_base_def dc_normalize_base_store_def store_get_deref [OF v])
  next
    case (Inr vpoint)
    then show ?thesis
      using d assms links [of vpoint "drop 1 (links vpoint)"]
      by (auto simp: dc_normalize_base_def dc_normalize_base_store_def store_get_deref [OF v]
          split: sum.splits)
  qed
qed

lemma tc_normalize_sim:
  assumes "sim l st vps"
  shows "case tc_normalize cls set_iter vps of
           Inl e \<Rightarrow> fst (tc_normalize_store cls set_iter l st) = Some e
         | Inr vps' \<Rightarrow> fst (tc_normalize_store cls set_iter l st) = None
                      \<and> sim l (snd (tc_normalize_store cls set_iter l st)) vps'"
proof -
  from assms have d: "deref st l = vps" by (simp add: sim_def)
  then have len: "length (seqs st ! l) = length vps" by (auto simp: deref_def)
  show ?thesis
    unfolding tc_normalize_def tc_normalize_store_def d len
    using tc_normalize_base_sim assms by (rule fold_simulation [where R = "sim l"])
qed

lemma dc_normalize_sim:
  assumes "sim l st vps"
  shows "case dc_normalize vps of
           Inl e \<Rightarrow> fst (dc_normalize_store l st) = Some e
         | Inr vps' \<Rightarrow> fst (dc_normalize_store l st) = None
                      \<and> sim l (snd (dc_normalize_store l st)) vps'"
proof -
  from assms have d: "deref st l = vps" by (simp add: sim_def)
  then have len: "length (seqs st ! l) = length vps" by (auto simp: deref_def)
  show ?thesis
    unfolding dc_normalize_def dc_normalize_store_def d len
    using dc_normalize_base_sim assms by (rule fold_simulation [where R = "sim l"])
qed

lemma list_copy_sim:
  assumes "valid_refs st a"
  shows "sim (length (seqs st)) (fst (list_copy st a)) (deref st a)"
  using assms by (auto simp: sim_def valid_refs_def list_copy_def deref_def nth_append)

lemma t_config_store_result:
  assumes "valid_refs st a"
  shows "fst (t_config_store ops cls set_iter st a inputs status0)
         = t_config ops cls set_iter (deref st a) inputs status0"
proof -
  let ?l = "length (seqs st)"
  let ?st1 = "st\<lparr>seqs := seqs st @ [seqs st ! a]\<rparr>"
  have lc: "list_copy st a = (?st1, ?l)" by (simp add: list_copy_def)
  have s1: "sim ?l ?st1 (deref st a)" using list_copy_sim [OF assms] by (simp add: list_copy_def)
  then have d1: "deref ?st1 ?l = deref st a" by (simp add: sim_def)
  have e: "seqs st ! a = [] \<longleftrightarrow> deref st a = []" by (simp add: deref_def)
  obtain err st2 where n: "tc_normalize_store cls set_iter ?l ?st1 = (err, st2)"
    by (cases "tc_normalize_store cls set_iter ?l ?st1")
  show ?thesis
  proof (cases "tc_normalize cls set_iter (deref st a)")
    case (Inl x)
    then show ?thesis
      using tc_normalize_sim [OF s1, of cls set_iter] n
      by (simp add: t_config_store_def t_config_def tc_prepare_def tc_run_def lc e)
  next
    case (Inr vps')
    then have "err = None" "deref st2 ?l = vps'"
      using tc_normalize_sim [OF s1, of cls set_iter] n by (simp_all add: sim_def)
    then show ?thesis
      using Inr n by (simp add: t_config_store_def t_config_def tc_prepare_def lc e d1)
  qed
qed

lemma data_collecting_store_result:
  assumes "valid_refs st a"
  shows "fst (data_collecting_store ops cls exprs mapping st a)
         = data_collecting ops cls exprs mapping (deref st a)"
proof -
  let ?l = "length (seqs st)"
  let ?st1 = "st\<lparr>seqs := seqs st @ [seqs st ! a]\<rparr>"
  have lc: "list_copy st a = (?st1, ?l)" by (simp add: list_copy_def)
  have s1: "sim ?l ?st1 (deref st a)" using list_copy_sim [OF assms] by (simp add: list_copy_def)
  obtain err st2 where n: "dc_normalize_store ?l ?st1 = (err, st2)"
    by (cases "dc_normalize_store ?l ?st1")
  show ?thesis
  proof (cases "dc_normalize (deref st a)")
    case (Inl x)
    then show ?thesis
      using dc_normalize_sim [OF s1] n by (simp add: data_collecting_store_def data_collecting_def lc)
  next
    case (Inr vps')
    then have "err = None" "deref st2 ?l = vps'"
      using dc_normalize_sim [OF s1] n by (simp_all add: sim_def)
    then show ?thesis
      using Inr n by (simp add: data_collecting_store_def data_collecting_def lc)
  qed
qed

lemma slider_store_valid: "valid_refs slider_store 0"
  by (simp add: valid_refs_def slider_store_def slider_pair_def)

lemma ground_slider_store_valid: "valid_refs ground_slider_store 0"
  by (simp add: valid_refs_def ground_slider_store_def ground_slider_def)

lemmas store_eval_defs =
  list_copy_def deref_def store_get_def store_assign_def tc_replace_store_def
  tc_normalize_base_store_def tc_normalize_store_def dc_replace_store_def
  dc_normalize_base_store_def dc_normalize_store_def dc_vlinks_def vlinks_append_def
  tc_init_joint_def pyset_add_def enumerate_list_def nth_err_def lookup_err_def
  spec_methods_def VLink_FRAME_def rjoint_def c_slider_joint_def upt2

lemma slider_store_after:
  "snd (data_collecting_store real_ops (spec_methods real_ops) [] [] slider_store 0)
   = \<lparr>objs = slider_pair
              @ [c_slider_joint [''L1'', ''L3''] VJoint_RP (Some 30) (Some 1) (Some 0)],
      seqs = [[0, 1], [0, 2]]\<rparr>"
  by (simp add: data_collecting_store_def slider_store_def slider_pair_def store_eval_defs)

lemma ground_slider_store_after:
  "snd (t_config_store real_ops (spec_methods real_ops) id ground_slider_store 0 [(0, 1)] [])
   = \<lparr>objs = ground_slider
              @ [c_slider_joint [''ground'', ''L3''] VJoint_RP (Some 30) (Some 1) (Some 0)],
      seqs = [[0, 1], [0, 2]]\<rparr>"
  by (simp add: t_config_store_def ground_slider_store_def ground_slider_def store_eval_defs)

text \<open>
  Claim C8. Neither \<^verbatim>\<open>t_config\<close> nor \<^verbatim>\<open>data_collecting\<close> writes the joint sequence of
  its caller or a joint object in it. For a call with the address \<open>a\<close> of a sequence of
  joints of the store: after the call (also when it raised), the sequence at \<open>a\<close> holds the
  same addresses, every joint object that existed before the call has the same fields, so
  the caller's sequence reads as the same joints; the replacement joints are new objects
  whose addresses go into the copy only. The result of the call is the one computed from
  the joints of the caller's sequence.
\<close>

theorem callers_joints_unchanged:
  assumes "valid_refs st a"
  shows "seqs (snd (t_config_store ops cls set_iter st a inputs status0)) ! a = seqs st ! a
       \<and> (\<forall>b<length (objs st).
             objs (snd (t_config_store ops cls set_iter st a inputs status0)) ! b = objs st ! b)
       \<and> deref (snd (t_config_store ops cls set_iter st a inputs status0)) a = deref st a
       \<and> fst (t_config_store ops cls set_iter st a inputs status0)
         = t_config ops cls set_iter (deref st a) inputs status0
       \<and> seqs (snd (data_collecting_store ops cls exprs mapping st a)) ! a = seqs st ! a
       \<and> (\<forall>b<length (objs st).
             objs (snd (data_collecting_store ops cls exprs mapping st a)) ! b = objs st ! b)
       \<and> deref (snd (data_collecting_store ops cls exprs mapping st a)) a = deref st a
       \<and> fst (data_collecting_store ops cls exprs mapping st a)
         = data_collecting ops cls exprs mapping (deref st a)"
proof -
  from assms have a: "a < length (seqs st)"
    and refs: "\<forall>b\<in>set (seqs st ! a). b < length (objs st)"
    by (simp_all add: valid_refs_def list_all_iff)
  have same: "seqs st' ! a = seqs st ! a \<and> (\<forall>b<length (objs st). objs st' ! b = objs st ! b)
              \<and> deref st' a = deref st a"
    if "frame st st'" for st'
  proof -
    have s: "seqs st' ! a = seqs st ! a" using frame_seq [OF that a] .
    have o: "\<forall>b<length (objs st). objs st' ! b = objs st ! b" using frame_obj [OF that] by blast
    have "map (\<lambda>b. objs st' ! b) (seqs st ! a) = map (\<lambda>b. objs st ! b) (seqs st ! a)"
      using refs o by (intro map_cong) auto
    then show ?thesis using s o by (simp add: deref_def)
  qed
  show ?thesis
    using same [OF t_config_store_frame] same [OF data_collecting_store_frame]
      t_config_store_result [OF assms] data_collecting_store_result [OF assms]
    by simp
qed

theorem callers_joints_unchanged_witness:
  "valid_refs slider_store 0
   \<and> seqs slider_store = [[0, 1]] \<and> objs slider_store = slider_pair
   \<and> snd (data_collecting_store real_ops (spec_methods real_ops) [] [] slider_store 0)
     = \<lparr>objs = slider_pair
                @ [c_slider_joint [''L1'', ''L3''] VJoint_RP (Some 30) (Some 1) (Some 0)],
        seqs = [[0, 1], [0, 2]]\<rparr>
   \<and> valid_refs ground_slider_store 0
   \<and> seqs ground_slider_store = [[0, 1]] \<and> objs ground_slider_store = ground_slider
   \<and> snd (t_config_store real_ops (spec_methods real_ops) id ground_slider_store 0 [(0, 1)] [])
     = \<lparr>objs = ground_slider
                @ [c_slider_joint [''ground'', ''L3''] VJoint_RP (Some 30) (Some 1) (Some 0)],
        seqs = [[0, 1], [0, 2]]\<rparr>"
  using callers_joints_unchanged [OF slider_store_valid]
    callers_joints_unchanged [OF ground_slider_store_valid]
    slider_store_valid ground_slider_store_valid slider_store_after ground_slider_store_after
  by (simp add: slider_store_def ground_slider_store_def)

section \<open>Cycle basis of a polygon, outer loop of two triangles\<close>

lemma nth_neq: "distinct vs \<Longrightarrow> i < length vs \<Longrightarrow> j < length vs \<Longrightarrow> i \<noteq> j \<Longrightarrow> vs ! i \<noteq> vs ! j"
  by (simp add: nth_eq_iff_index_eq)

lemma nth_neq_last: "distinct vs \<Longrightarrow> i < length vs - 1 \<Longrightarrow> vs ! i \<noteq> last vs"
  by (cases "vs = []") (auto simp: last_conv_nth nth_eq_iff_index_eq)

lemma mod_pred:
  fixes k n :: nat
  assumes "0 < k" "k < n"
  shows "(k + (n - 1)) mod n = k - 1"
proof -
  have "k + (n - 1) = (k - 1) + n" using assms by arith
  then have "(k + (n - 1)) mod n = ((k - 1) + n) mod n" by (simp only:)
  also have "\<dots> = (k - 1) mod n" by (simp only: mod_add_self2)
  also have "\<dots> = k - 1" using assms by (intro mod_less) arith
  finally show ?thesis .
qed

lemma take_one: "vs \<noteq> [] \<Longrightarrow> take (Suc 0) vs = [vs ! 0]"
  by (cases vs) auto

lemma chain_pred_root:
  assumes "distinct vs" "3 \<le> length vs" "k \<le> length vs - 2"
  shows "chain_pred vs k (vs ! 0) = Some (vs ! 0)"
  using assms(3)
proof (induction k)
  case 0
  then show ?case by simp
next
  case (Suc k)
  then have "vs ! Suc k \<noteq> vs ! 0" using assms by (intro nth_neq) auto
  with Suc show ?case by simp
qed

lemma chain_pred_nth:
  assumes "distinct vs" "3 \<le> length vs" "k \<le> length vs - 2" "1 \<le> i" "i \<le> k"
  shows "chain_pred vs k (vs ! i) = Some (vs ! (i - 1))"
  using assms(3,5)
proof (induction k)
  case 0
  then show ?case using assms(4) by simp
next
  case (Suc k)
  show ?case
  proof (cases "i = Suc k")
    case True
    then show ?thesis by simp
  next
    case False
    then have "vs ! Suc k \<noteq> vs ! i" using assms Suc.prems by (intro nth_neq) auto
    with Suc False show ?thesis by simp
  qed
qed

lemma chain_pred_dom:
  assumes "3 \<le> length vs"  "k \<le> length vs - 2"
  shows "dom (chain_pred vs k) = insert (last vs) (set (take (Suc k) vs))"
  using assms(2)
proof (induction k)
  case 0
  have "take (Suc 0) vs = [vs ! 0]" using assms(1) by (intro take_one) auto
  then show ?case by (auto simp: dom_def split: if_splits)
next
  case (Suc k)
  then have t: "take (Suc (Suc k)) vs = take (Suc k) vs @ [vs ! Suc k]"
    using assms by (simp add: take_Suc_conv_app_nth)
  have "dom (chain_pred vs (Suc k)) = insert (vs ! Suc k) (dom (chain_pred vs k))"
    by simp
  also have "\<dots> = insert (vs ! Suc k) (insert (last vs) (set (take (Suc k) vs)))"
    using Suc by simp
  also have "\<dots> = insert (last vs) (set (take (Suc (Suc k)) vs))"
    unfolding t by auto
  finally show ?case .
qed

lemma chain_used_root:
  assumes "distinct vs" "3 \<le> length vs" "k \<le> length vs - 2"
  shows "chain_used vs k (vs ! 0) = Some {}"
  using assms(3)
proof (induction k)
  case 0
  have "vs ! 0 \<noteq> last vs" using assms by (intro nth_neq_last) auto
  then show ?case by simp
next
  case (Suc k)
  then have "vs ! Suc k \<noteq> vs ! 0" using assms by (intro nth_neq) auto
  with Suc show ?case by simp
qed

lemma chain_used_last:
  assumes "distinct vs" "3 \<le> length vs" "k \<le> length vs - 2"
  shows "chain_used vs k (last vs) = Some {vs ! 0}"
  using assms(3)
proof (induction k)
  case 0
  have "vs ! 0 \<noteq> last vs" using assms by (intro nth_neq_last) auto
  then show ?case by simp
next
  case (Suc k)
  then have "vs ! Suc k \<noteq> last vs" using assms by (intro nth_neq_last) auto
  with Suc show ?case by simp
qed

lemma chain_used_nth:
  assumes "distinct vs" "3 \<le> length vs" "k \<le> length vs - 2" "1 \<le> i" "i \<le> k"
  shows "chain_used vs k (vs ! i) = Some {vs ! (i - 1)}"
  using assms(3,5)
proof (induction k)
  case 0
  then show ?case using assms(4) by simp
next
  case (Suc k)
  show ?case
  proof (cases "i = Suc k")
    case True
    then show ?thesis by simp
  next
    case False
    then have "vs ! Suc k \<noteq> vs ! i" using assms Suc.prems by (intro nth_neq) auto
    with Suc False show ?thesis by simp
  qed
qed

lemma chain_used_none:
  assumes "distinct vs" "3 \<le> length vs" "k < i" "i < length vs - 1"
  shows "chain_used vs k (vs ! i) = None"
  using assms(3)
proof (induction k)
  case 0
  have "vs ! i \<noteq> vs ! 0" using assms 0 by (intro nth_neq) auto
  moreover have "vs ! i \<noteq> last vs" using assms by (intro nth_neq_last) auto
  ultimately show ?case by simp
next
  case (Suc k)
  then have "vs ! i \<noteq> vs ! Suc k" using assms by (intro nth_neq) auto
  with Suc show ?case by simp
qed

lemma cb_visit_new:
  "cb_used s nbr = None \<Longrightarrow>
   cb_visit z zused nbr s
   = Some (Inr (s\<lparr>cb_pred := (cb_pred s)(nbr \<mapsto> z), cb_stack := cb_stack s @ [nbr],
                   cb_used := (cb_used s)(nbr \<mapsto> {z})\<rparr>))"
  by (simp add: cb_visit_def)

lemma cb_visit_seen:
  "cb_used s nbr = Some pn \<Longrightarrow> nbr \<noteq> z \<Longrightarrow> nbr \<in> zused \<Longrightarrow> cb_visit z zused nbr s = Some (Inr s)"
  by (simp add: cb_visit_def)

lemma cb_visit_cycle:
  "cb_used s nbr = Some pn \<Longrightarrow> nbr \<noteq> z \<Longrightarrow> nbr \<notin> zused \<Longrightarrow> cb_pred s z = Some p \<Longrightarrow>
   cycle_walk (cb_pred s) pn (OrderedSet_init [nbr, z]) p = Some (Inr (cycle, p')) \<Longrightarrow>
   cb_visit z zused nbr s
   = Some (Inr (s\<lparr>cb_cycles := cb_cycles s @ [Ordered (os_add cycle p')],
                   cb_used := (cb_used s)(nbr \<mapsto> insert z pn)\<rparr>))"
  by (simp add: cb_visit_def)

lemma polygon_adj:
  assumes "polygon g vs" "i < length vs"
  shows "adj g (vs ! i) = Some [vs ! ((i + 1) mod length vs), vs ! ((i + (length vs - 1)) mod length vs)]
       \<or> adj g (vs ! i) = Some [vs ! ((i + (length vs - 1)) mod length vs), vs ! ((i + 1) mod length vs)]"
  using assms by (simp add: polygon_def list_all_iff)

text \<open>One step along the chain.\<close>

lemma chain_step:
  assumes poly: "polygon g vs" and k: "1 \<le> k" "Suc k \<le> length vs - 2"
  shows "cb_tree g (chain_state vs k cycles) = cb_tree g (chain_state vs (Suc k) cycles)"
proof -
  let ?n = "length vs"
  from poly have d: "distinct vs" and n: "3 \<le> ?n" by (simp_all add: polygon_def)
  have kn: "k < ?n" using k by simp
  have nx: "(k + 1) mod ?n = Suc k" using k by simp
  have pv: "(k + (?n - 1)) mod ?n = k - 1" using k by (intro mod_pred) auto
  have zused: "chain_used vs k (vs ! k) = Some {vs ! (k - 1)}"
    using chain_used_nth [OF d n _ k(1) order_refl] k by simp
  have seen: "chain_used vs k (vs ! (k - 1)) \<noteq> None"
  proof (cases "k = 1")
    case True
    then show ?thesis using chain_used_root [OF d n, of k] k by simp
  next
    case False
    then show ?thesis using chain_used_nth [OF d n, of k "k - 1"] k by simp
  qed
  then obtain pn where pn: "chain_used vs k (vs ! (k - 1)) = Some pn" by auto
  have new: "chain_used vs k (vs ! Suc k) = None"
    using chain_used_none [OF d n, of k "Suc k"] k by simp
  have ne: "vs ! (k - 1) \<noteq> vs ! k" using d k by (intro nth_neq) auto
  have ne2: "vs ! (k - 1) \<noteq> vs ! Suc k" using d k by (intro nth_neq) auto
  let ?s1 = "\<lparr>cb_stack = [last vs], cb_pred = chain_pred vs k, cb_used = chain_used vs k,
               cb_cycles = cycles\<rparr>"
  have v_prev: "\<And>s. cb_used s (vs ! (k - 1)) = Some pn \<Longrightarrow>
      cb_visit (vs ! k) {vs ! (k - 1)} (vs ! (k - 1)) s = Some (Inr s)"
    using ne by (intro cb_visit_seen) auto
  have v_next: "cb_visit (vs ! k) {vs ! (k - 1)} (vs ! Suc k) ?s1
                = Some (Inr (chain_state vs (Suc k) cycles))"
    using new by (simp add: cb_visit_new chain_state_def)
  have f1: "fold_visit (cb_visit (vs ! k) {vs ! (k - 1)}) [vs ! Suc k, vs ! (k - 1)] ?s1
            = Some (Inr (chain_state vs (Suc k) cycles))"
    using v_next v_prev [of "chain_state vs (Suc k) cycles"] pn ne2
    by (simp add: chain_state_def)
  have f2: "fold_visit (cb_visit (vs ! k) {vs ! (k - 1)}) [vs ! (k - 1), vs ! Suc k] ?s1
            = Some (Inr (chain_state vs (Suc k) cycles))"
    using v_next v_prev [of ?s1] pn by simp
  from polygon_adj [OF poly kn] show ?thesis
    unfolding nx pv
  proof
    assume a: "adj g (vs ! k) = Some [vs ! Suc k, vs ! (k - 1)]"
    show ?thesis
      apply (subst cb_tree.simps)
      using f1 zused a
      apply (simp add: chain_state_def Let_def del: fold_visit.simps)
      done
  next
    assume a: "adj g (vs ! k) = Some [vs ! (k - 1), vs ! Suc k]"
    show ?thesis
      apply (subst cb_tree.simps)
      using f2 zused a
      apply (simp add: chain_state_def Let_def del: fold_visit.simps)
      done
  qed
qed

lemma chain_run:
  assumes poly: "polygon g vs" and k: "1 \<le> k" "k \<le> length vs - 2"
  shows "cb_tree g (chain_state vs k cycles) = cb_tree g (chain_state vs (length vs - 2) cycles)"
  using k
proof (induction "length vs - 2 - k" arbitrary: k)
  case 0
  then have "k = length vs - 2" by simp
  then show ?case by simp
next
  case (Suc m)
  then have "Suc k \<le> length vs - 2" by simp
  moreover have "m = length vs - 2 - Suc k" using Suc by simp
  ultimately show ?case
    using chain_step [OF poly Suc.prems(1), of cycles] Suc.hyps(1) [of "Suc k"] by simp
qed

text \<open>The walk back along the predecessors collects the chain.\<close>

lemma chain_walk:
  assumes d: "distinct vs" and n: "3 \<le> length vs" and j: "j \<le> length vs - 3"
  shows "cycle_walk (chain_pred vs (length vs - 2)) {vs ! 0} (rev (drop (Suc j) vs)) (vs ! j)
         = Some (Inr (rev (drop 1 vs), vs ! 0))"
  using j
proof (induction j)
  case 0
  show ?case by (subst cycle_walk.simps) simp
next
  case (Suc j)
  have ne: "vs ! Suc j \<noteq> vs ! 0" using d n Suc.prems by (intro nth_neq) auto
  have p: "chain_pred vs (length vs - 2) (vs ! Suc j) = Some (vs ! j)"
    using chain_pred_nth [OF d n, of "length vs - 2" "Suc j"] Suc.prems by simp
  have lt: "Suc j < length vs" using n Suc.prems by simp
  have "distinct (drop (Suc j) vs)" using d by simp
  then have "vs ! Suc j \<notin> set (drop (Suc (Suc j)) vs)"
    unfolding Cons_nth_drop_Suc [OF lt, symmetric] by simp
  then have a: "os_add (rev (drop (Suc (Suc j)) vs)) (vs ! Suc j) = rev (drop (Suc j) vs)"
    using n Suc.prems by (simp add: os_add_def Cons_nth_drop_Suc [symmetric])
  show ?case
    apply (subst cycle_walk.simps)
    using ne p a Suc.IH Suc.prems
    apply simp
    done
qed

lemma chain_end:
  assumes poly: "polygon g vs"
  shows "cb_tree g (chain_state vs (length vs - 2) cycles)
         = Some (Inr \<lparr>cb_stack = [], cb_pred = chain_pred vs (length vs - 2),
                       cb_used = (chain_used vs (length vs - 2))
                                   (last vs \<mapsto> {vs ! (length vs - 2), vs ! 0}),
                       cb_cycles = cycles @ [Ordered (rev vs)]\<rparr>)"
proof -
  let ?n = "length vs"
  let ?k = "?n - 2"
  let ?P = "chain_pred vs ?k"
  let ?U = "chain_used vs ?k"
  from poly have d: "distinct vs" and n: "3 \<le> ?n" by (simp_all add: polygon_def)
  have k: "1 \<le> ?k" "?k < ?n" using n by simp_all
  have l: "last vs = vs ! (?n - 1)" using n by (cases "vs = []") (auto simp: last_conv_nth)
  have nx: "(?k + 1) mod ?n = ?n - 1" using n by simp
  have pv: "(?k + (?n - 1)) mod ?n = ?k - 1" using n by (intro mod_pred) auto
  have "?n - 1 + 1 = ?n" using n by arith
  then have nx2: "(?n - 1 + 1) mod ?n = 0" by (simp only: mod_self)
  have "(?n - 1 + (?n - 1)) mod ?n = ?n - 1 - 1" using n by (intro mod_pred) auto
  then have pv2: "(?n - 1 + (?n - 1)) mod ?n = ?k" by (simp only: diff_diff_left one_add_one)
  have zused: "?U (vs ! ?k) = Some {vs ! (?k - 1)}"
    using chain_used_nth [OF d n order_refl k(1) order_refl] .
  have seen: "?U (vs ! (?k - 1)) \<noteq> None"
  proof (cases "?k = 1")
    case True
    then show ?thesis using chain_used_root [OF d n order_refl] by simp
  next
    case False
    then show ?thesis using chain_used_nth [OF d n order_refl, of "?k - 1"] k by simp
  qed
  then obtain pn where pn: "?U (vs ! (?k - 1)) = Some pn" by auto
  have ul: "?U (last vs) = Some {vs ! 0}" using chain_used_last [OF d n order_refl] .
  have ur: "?U (vs ! 0) = Some {}" using chain_used_root [OF d n order_refl] .
  have pz: "?P (vs ! ?k) = Some (vs ! (?k - 1))"
    using chain_pred_nth [OF d n order_refl k(1) order_refl] .
  have ne1: "vs ! (?k - 1) \<noteq> vs ! ?k" using d n by (intro nth_neq) auto
  have lt: "?k < ?n - 1" "?k - 1 < ?n - 1" "0 < ?n - 1" using n by arith+
  have ne2: "last vs \<noteq> vs ! ?k" using nth_neq_last [OF d lt(1)] by simp
  have ne3: "last vs \<noteq> vs ! (?k - 1)" using nth_neq_last [OF d lt(2)] by simp
  have ne4: "last vs \<noteq> vs ! 0" using nth_neq_last [OF d lt(3)] by simp
  have ne5: "vs ! 0 \<noteq> vs ! ?k" using d n by (intro nth_neq) auto
  have dr: "drop ?k vs = [vs ! ?k, last vs]"
  proof -
    have "drop ?k vs = vs ! ?k # drop (Suc ?k) vs" using n by (intro Cons_nth_drop_Suc [symmetric]) simp
    moreover have "drop (Suc ?k) vs = vs ! Suc ?k # drop (Suc (Suc ?k)) vs"
      using n by (intro Cons_nth_drop_Suc [symmetric]) simp
    moreover have "Suc ?k = ?n - 1" "Suc (Suc ?k) = ?n" using n by simp_all
    ultimately show ?thesis using l by simp
  qed
  have sk: "Suc (?k - 1) = ?k" using n by arith
  have init: "OrderedSet_init [last vs, vs ! ?k] = rev (drop (Suc (?k - 1)) vs)"
    unfolding sk dr using ne2 by (simp add: OrderedSet_init_def os_add_def)
  have walk: "cycle_walk ?P {vs ! 0} (OrderedSet_init [last vs, vs ! ?k]) (vs ! (?k - 1))
              = Some (Inr (rev (drop 1 vs), vs ! 0))"
    unfolding init using chain_walk [OF d n, of "?k - 1"] n by simp
  have "vs ! 0 \<notin> set (drop 1 vs)"
  proof -
    have "vs = vs ! 0 # drop 1 vs" using n by (cases vs) auto
    then show ?thesis using d by (metis distinct.simps(2))
  qed
  moreover have "rev (drop 1 vs) @ [vs ! 0] = rev vs" using n by (cases vs) auto
  ultimately have close: "os_add (rev (drop 1 vs)) (vs ! 0) = rev vs"
    by (simp add: os_add_def)
  let ?s1 = "\<lparr>cb_stack = [last vs], cb_pred = ?P, cb_used = ?U, cb_cycles = cycles\<rparr>"
  let ?s2 = "\<lparr>cb_stack = [last vs], cb_pred = ?P,
               cb_used = ?U(last vs \<mapsto> {vs ! ?k, vs ! 0}), cb_cycles = cycles @ [Ordered (rev vs)]\<rparr>"
  have v_prev1: "cb_visit (vs ! ?k) {vs ! (?k - 1)} (vs ! (?k - 1)) ?s1 = Some (Inr ?s1)"
    using ne1 pn by (intro cb_visit_seen) auto
  have v_prev2: "cb_visit (vs ! ?k) {vs ! (?k - 1)} (vs ! (?k - 1)) ?s2 = Some (Inr ?s2)"
    using ne1 ne3 pn by (intro cb_visit_seen [where pn = pn]) auto
  have v_last: "cb_visit (vs ! ?k) {vs ! (?k - 1)} (last vs) ?s1 = Some (Inr ?s2)"
    using cb_visit_cycle [of ?s1 "last vs" "{vs ! 0}" "vs ! ?k" "{vs ! (?k - 1)}" "vs ! (?k - 1)"
        "rev (drop 1 vs)" "vs ! 0"] ul ne2 ne3 pz walk close
    by simp
  have f1: "fold_visit (cb_visit (vs ! ?k) {vs ! (?k - 1)}) [last vs, vs ! (?k - 1)] ?s1
            = Some (Inr ?s2)"
    using v_last v_prev2 by simp
  have f2: "fold_visit (cb_visit (vs ! ?k) {vs ! (?k - 1)}) [vs ! (?k - 1), last vs] ?s1
            = Some (Inr ?s2)"
    using v_last v_prev1 by simp
  let ?s3 = "?s2\<lparr>cb_stack := []\<rparr>"
  have w1: "cb_visit (last vs) {vs ! ?k, vs ! 0} (vs ! 0) ?s3 = Some (Inr ?s3)"
    using ne4 ur by (intro cb_visit_seen [where pn = "{}"]) auto
  have w2: "cb_visit (last vs) {vs ! ?k, vs ! 0} (vs ! ?k) ?s3 = Some (Inr ?s3)"
    using ne2 zused by (intro cb_visit_seen [where pn = "{vs ! (?k - 1)}"]) auto
  have g1: "fold_visit (cb_visit (last vs) {vs ! ?k, vs ! 0}) [vs ! 0, vs ! ?k] ?s3
            = Some (Inr ?s3)"
    using w1 w2 by simp
  have g2: "fold_visit (cb_visit (last vs) {vs ! ?k, vs ! 0}) [vs ! ?k, vs ! 0] ?s3
            = Some (Inr ?s3)"
    using w1 w2 by simp
  have stop: "cb_tree g ?s3 = Some (Inr ?s3)"
    by (subst cb_tree.simps) simp
  have ln: "?n - 1 < ?n" using n by arith
  have second: "cb_tree g ?s2 = Some (Inr ?s3)"
    using polygon_adj [OF poly ln] unfolding nx2 pv2 l [symmetric]
  proof
    assume a: "adj g (last vs) = Some [vs ! 0, vs ! ?k]" 
    show ?thesis
      apply (subst cb_tree.simps)
      using a g1 stop
      apply (simp add: Let_def del: fold_visit.simps)
      done
  next
    assume a: "adj g (last vs) = Some [vs ! ?k, vs ! 0]" 
    show ?thesis
      apply (subst cb_tree.simps)
      using a g2 stop
      apply (simp add: Let_def del: fold_visit.simps)
      done
  qed
  have first: "cb_tree g (chain_state vs ?k cycles) = cb_tree g ?s2"
    using polygon_adj [OF poly k(2)] unfolding nx pv l [symmetric]
  proof
    assume a: "adj g (vs ! ?k) = Some [last vs, vs ! (?k - 1)]"
    show ?thesis
      apply (subst cb_tree.simps)
      using a f1 zused
      apply (simp add: chain_state_def Let_def del: fold_visit.simps)
      done
  next
    assume a: "adj g (vs ! ?k) = Some [vs ! (?k - 1), last vs]"
    show ?thesis
      apply (subst cb_tree.simps)
      using a f2 zused
      apply (simp add: chain_state_def Let_def del: fold_visit.simps)
      done
  qed
  show ?thesis using first second by simp
qed

lemma chain_start:
  assumes poly: "polygon g vs" and a: "adj g (vs ! 0) = Some [last vs, vs ! 1]"
  shows "cb_tree g \<lparr>cb_stack = [vs ! 0], cb_pred = [vs ! 0 \<mapsto> vs ! 0],
                      cb_used = [vs ! 0 \<mapsto> {}], cb_cycles = cycles\<rparr>
         = cb_tree g (chain_state vs 1 cycles)"
proof -
  from poly have d: "distinct vs" and n: "3 \<le> length vs" by (simp_all add: polygon_def)
  have lt: "0 < length vs - 1" "1 < length vs - 1" using n by arith+
  have ne1: "last vs \<noteq> vs ! 0" using nth_neq_last [OF d lt(1)] by simp
  have ne2: "last vs \<noteq> vs ! 1" using nth_neq_last [OF d lt(2)] by simp
  have ne3: "vs ! 1 \<noteq> vs ! 0" using d n by (intro nth_neq) auto
  show ?thesis
    apply (subst cb_tree.simps)
    using a ne1 ne2 ne3
    apply (simp add: chain_state_def Let_def cb_visit_def)
    done
qed

lemma polygon_tree:
  assumes poly: "polygon g vs" and a: "adj g (vs ! 0) = Some [last vs, vs ! 1]"
  shows "\<exists>s. cb_tree g \<lparr>cb_stack = [vs ! 0], cb_pred = [vs ! 0 \<mapsto> vs ! 0],
                          cb_used = [vs ! 0 \<mapsto> {}], cb_cycles = cycles\<rparr> = Some (Inr s)
             \<and> cb_cycles s = cycles @ [Ordered (rev vs)] \<and> dom (cb_pred s) = set vs"
proof -
  from poly have d: "distinct vs" and n: "3 \<le> length vs" by (simp_all add: polygon_def)
  have k: "1 \<le> (1::nat)" "1 \<le> length vs - 2" using n by simp_all
  have "Suc (length vs - 2) = length vs - 1" using n by arith
  then have "take (Suc (length vs - 2)) vs = butlast vs" by (simp add: butlast_conv_take)
  then have "insert (last vs) (set (take (Suc (length vs - 2)) vs)) = set (butlast vs @ [last vs])"
    by simp
  also have "\<dots> = set vs" using n by (cases "vs = []") (auto simp del: set_append)
  finally have dm: "dom (chain_pred vs (length vs - 2)) = set vs"
    using chain_pred_dom [OF n order_refl] by simp
  show ?thesis
    unfolding chain_start [OF poly a] chain_run [OF poly k] chain_end [OF poly]
    using dm by simp
qed

lemma polygon_rotate:
  assumes poly: "polygon g vs"
  shows "polygon g (rotate m vs)"
proof -
  let ?n = "length vs"
  from poly have d: "distinct vs" and n: "3 \<le> ?n" and s: "set (nodes g) = set vs"
    by (simp_all add: polygon_def)
  have adj_rot: "adj g (rotate m vs ! i)
        = Some [rotate m vs ! ((i + 1) mod ?n), rotate m vs ! ((i + (?n - 1)) mod ?n)]
      \<or> adj g (rotate m vs ! i)
        = Some [rotate m vs ! ((i + (?n - 1)) mod ?n), rotate m vs ! ((i + 1) mod ?n)]"
    if i: "i < ?n" for i
  proof -
    let ?j = "(m + i) mod ?n"
    have pos: "0 < ?n" using n by arith
    have j: "?j < ?n" using pos by simp
    have r0: "rotate m vs ! i = vs ! ?j" using i by (simp add: nth_rotate)
    have m1: "(i + 1) mod ?n < ?n" "(i + (?n - 1)) mod ?n < ?n" using pos by simp_all
    have "(m + (i + 1) mod ?n) mod ?n = (?j + 1) mod ?n"
      by (simp add: mod_simps ac_simps)
    then have r1: "rotate m vs ! ((i + 1) mod ?n) = vs ! ((?j + 1) mod ?n)"
      using m1 by (simp only: nth_rotate)
    have "(m + (i + (?n - 1)) mod ?n) mod ?n = (?j + (?n - 1)) mod ?n"
      by (simp only: mod_add_right_eq mod_add_left_eq add.assoc)
    then have r2: "rotate m vs ! ((i + (?n - 1)) mod ?n) = vs ! ((?j + (?n - 1)) mod ?n)"
      using m1 by (simp only: nth_rotate)
    show ?thesis unfolding r0 r1 r2 using polygon_adj [OF poly j] .
  qed
  show ?thesis
    unfolding polygon_def using d n s adj_rot by (simp add: list_all_iff)
qed

lemma polygon_rev:
  assumes poly: "polygon g vs"
  shows "polygon g (rev vs)"
proof -
  let ?n = "length vs"
  from poly have d: "distinct vs" and n: "3 \<le> ?n" and s: "set (nodes g) = set vs"
    by (simp_all add: polygon_def)
  have adj_rev: "adj g (rev vs ! i)
        = Some [rev vs ! ((i + 1) mod ?n), rev vs ! ((i + (?n - 1)) mod ?n)]
      \<or> adj g (rev vs ! i)
        = Some [rev vs ! ((i + (?n - 1)) mod ?n), rev vs ! ((i + 1) mod ?n)]"
    if i: "i < ?n" for i
  proof -
    let ?j = "?n - Suc i"
    have pos: "0 < ?n" using n by arith
    have j: "?j < ?n" using n by simp
    have r0: "rev vs ! i = vs ! ?j" using i by (simp add: rev_nth)
    have m1: "(i + 1) mod ?n < ?n" "(i + (?n - 1)) mod ?n < ?n" using pos by simp_all
    have e1: "?n - Suc ((i + 1) mod ?n) = (?j + (?n - 1)) mod ?n"
    proof (cases "i + 1 < ?n")
      case True
      then have "0 < ?j" "(i + 1) mod ?n = i + 1" by simp_all
      then show ?thesis using mod_pred [of ?j ?n] j by simp
    next
      case False
      then have "i + 1 = ?n" using i by simp
      then have "?j = 0" "(i + 1) mod ?n = 0" by simp_all
      then show ?thesis using n by simp
    qed
    have e2: "?n - Suc ((i + (?n - 1)) mod ?n) = (?j + 1) mod ?n"
    proof (cases "i = 0")
      case True
      then have "(i + (?n - 1)) mod ?n = ?n - 1" "?j + 1 = ?n" using n by simp_all
      then show ?thesis using n by simp
    next
      case False
      then have "(i + (?n - 1)) mod ?n = i - 1" using mod_pred [of i ?n] i by simp
      moreover have "?j + 1 < ?n" using False i by simp
      ultimately show ?thesis using False i by simp
    qed
    have r1: "rev vs ! ((i + 1) mod ?n) = vs ! ((?j + (?n - 1)) mod ?n)"
      using m1 by (simp only: rev_nth e1)
    have r2: "rev vs ! ((i + (?n - 1)) mod ?n) = vs ! ((?j + 1) mod ?n)"
      using m1 by (simp only: rev_nth e2)
    show ?thesis unfolding r0 r1 r2 using polygon_adj [OF poly j] by blast
  qed
  show ?thesis
    unfolding polygon_def using d n s adj_rev by (simp add: list_all_iff)
qed

lemma polygon_normal:
  assumes poly: "polygon g vs" and r: "r \<in> set vs"
  shows "\<exists>ws. polygon g ws \<and> ws ! 0 = r \<and> adj g r = Some [last ws, ws ! 1]
              \<and> set ws = set vs \<and> length ws = length vs"
proof -
  let ?n = "length vs"
  from poly have n: "3 \<le> ?n" by (simp add: polygon_def)
  from r obtain i where i: "i < ?n" "vs ! i = r" by (auto simp: in_set_conv_nth)
  let ?ws = "rotate i vs"
  have pw: "polygon g ?ws" using polygon_rotate [OF poly] .
  have pos: "0 < ?n" using n by arith
  have w0: "?ws ! 0 = r" using i pos by (simp add: nth_rotate)
  have lw: "length ?ws = ?n" by simp
  have lastw: "last ?ws = ?ws ! (?n - 1)" using pos by (simp add: last_conv_nth)
  have m: "(0 + 1) mod ?n = 1" "(0 + (?n - 1)) mod ?n = ?n - 1" using n by simp_all
  have z: "0 < length ?ws" using pos by simp
  from polygon_adj [OF pw z]
  have "adj g r = Some [?ws ! 1, last ?ws] \<or> adj g r = Some [last ?ws, ?ws ! 1]"
    unfolding lw m w0 lastw .
  then show ?thesis
  proof
    assume a: "adj g r = Some [last ?ws, ?ws ! 1]"
    show ?thesis using pw w0 a by (intro exI [of _ ?ws]) simp
  next
    assume a: "adj g r = Some [?ws ! 1, last ?ws]"
    let ?us = "rotate (?n - 1) (rev ?ws)"
    have pu: "polygon g ?us" using polygon_rotate [OF polygon_rev [OF pw]] .
    have u_nth: "?us ! j = rev ?ws ! ((?n - 1 + j) mod ?n)" if "j < ?n" for j
      using that by (simp add: nth_rotate)
    have rv: "rev ?ws ! j = ?ws ! (?n - Suc j)" if "j < ?n" for j
      using that by (simp add: rev_nth)
    have e0: "(?n - 1 + 0) mod ?n = ?n - 1" using pos by simp
    have "?n - 1 + 1 = ?n" using n by arith
    then have e1: "(?n - 1 + 1) mod ?n = 0" by (simp only: mod_self)
    have "(?n - 1 + (?n - 1)) mod ?n = ?n - 1 - 1" using n by (intro mod_pred) auto
    then have e2: "(?n - 1 + (?n - 1)) mod ?n = ?n - 2"
      by (simp only: diff_diff_left one_add_one)
    have lts: "0 < ?n" "1 < ?n" "?n - 1 < ?n" "?n - 2 < ?n" using n by arith+
    have d0: "?n - Suc (?n - 1) = 0" "?n - Suc 0 = ?n - 1" "?n - Suc (?n - 2) = 1"
      using n by arith+
    have u0: "?us ! 0 = r"
      unfolding u_nth [OF lts(1)] e0 rv [OF lts(3)] d0 using w0 .
    have u1: "?us ! 1 = last ?ws"
      unfolding u_nth [OF lts(2)] e1 rv [OF lts(1)] d0 lastw ..
    have "?us ! (?n - 1) = ?ws ! 1"
      unfolding u_nth [OF lts(3)] e2 rv [OF lts(4)] d0 ..
    moreover have "last ?us = ?us ! (?n - 1)" using pos by (simp add: last_conv_nth)
    ultimately have ul: "last ?us = ?ws ! 1" by simp
    show ?thesis using pu u0 a u1 ul by (intro exI [of _ ?us]) simp
  qed
qed

text \<open>On a polygon of \<open>n\<close> nodes, with the neighbours of a node in either order and any
  root, \<^verbatim>\<open>cycle_basis\<close> returns one cycle, which holds each of the \<open>n\<close> nodes once.\<close>

lemma polygon_cycle_basis:
  assumes poly: "polygon g vs" and pop: "pop (set (nodes g)) \<in> set (nodes g)"
  shows "\<exists>cyc. cycle_basis pop g = Some (Inr [Ordered cyc]) \<and> distinct cyc
               \<and> set cyc = set (nodes g) \<and> length cyc = length vs"
proof -
  from poly have s: "set (nodes g) = set vs" and n: "3 \<le> length vs"
    by (simp_all add: polygon_def)
  let ?r = "pop (set vs)"
  have r: "?r \<in> set vs" using pop s by simp
  from polygon_normal [OF poly r] obtain ws where
    pw: "polygon g ws" and w0: "ws ! 0 = ?r" and a: "adj g ?r = Some [last ws, ws ! 1]"
    and sw: "set ws = set vs" and lw: "length ws = length vs" by blast
  from polygon_tree [OF pw, of "[]"] a w0 obtain s' where
    t: "cb_tree g \<lparr>cb_stack = [?r], cb_pred = [?r \<mapsto> ?r], cb_used = [?r \<mapsto> {}],
                     cb_cycles = []\<rparr> = Some (Inr s')"
    and cy: "cb_cycles s' = [Ordered (rev ws)]" and dm: "dom (cb_pred s') = set ws" by auto
  have ne: "set vs \<noteq> {}" using n by auto
  have em: "set vs - {?r} - set vs = {}" by auto
  have stop: "cb_components pop g {} [Ordered (rev ws)] = Some (Inr [Ordered (rev ws)])"
    by (subst cb_components.simps) simp
  have step: "cb_components pop g (set vs) []
              = cb_components pop g (set vs - {?r} - dom (cb_pred s')) (cb_cycles s')"
    apply (subst cb_components.simps)
    using ne t
    apply (simp add: Let_def)
    done
  have "cycle_basis pop g = Some (Inr [Ordered (rev ws)])"
    unfolding cycle_basis_def s step dm sw em cy stop ..
  moreover have "distinct (rev ws)" using pw by (simp add: polygon_def)
  ultimately show ?thesis using sw lw s by (intro exI [of _ "rev ws"]) simp
qed

lemma perm2:
  assumes "distinct xs" "set xs = {x, y}" "x \<noteq> y"
  shows "xs = [x, y] \<or> xs = [y, x]"
proof -
  have "length xs = 2" using assms by (metis card_2_iff distinct_card)
  then obtain u v where "xs = [u, v]"
    by (metis (no_types) length_0_conv length_Suc_conv numeral_2_eq_2)
  then show ?thesis using assms by (auto simp: doubleton_eq_iff)
qed

lemma perm3:
  assumes "distinct xs" "set xs = {x, y, z}" "distinct [x, y, z]"
  shows "xs = [x, y, z] \<or> xs = [x, z, y] \<or> xs = [y, x, z] \<or> xs = [y, z, x]
       \<or> xs = [z, x, y] \<or> xs = [z, y, x]"
proof -
  have "card {x, y, z} = 3" using assms(3) by simp
  then have "length xs = 3" using assms(1,2) by (metis distinct_card)
  then obtain u v w where xs: "xs = [u, v, w]"
    by (metis (no_types) length_0_conv length_Suc_conv numeral_3_eq_3)
  have "u \<in> {x, y, z}" "v \<in> {x, y, z}" "w \<in> {x, y, z}" using assms(2) xs by auto
  then show ?thesis using assms xs by auto
qed

lemma neighbours2:
  "neighbours g v [x, y] \<Longrightarrow> x \<noteq> y \<Longrightarrow> adj g v = Some [x, y] \<or> adj g v = Some [y, x]"
  using perm2 [of _ x y] by (auto simp: neighbours_def split: option.splits)

lemma neighbours3:
  "neighbours g v [x, y, z] \<Longrightarrow> distinct [x, y, z] \<Longrightarrow>
   adj g v = Some [x, y, z] \<or> adj g v = Some [x, z, y] \<or> adj g v = Some [y, x, z]
   \<or> adj g v = Some [y, z, x] \<or> adj g v = Some [z, x, y] \<or> adj g v = Some [z, y, x]"
  using perm3 [of _ x y z] by (auto simp: neighbours_def split: option.splits)

lemma tree_pop:
  assumes "cb_stack s = st @ [z]" "cb_used s z = Some zused" "adj g z = Some nbrs"
    "fold_visit (cb_visit z zused) nbrs (s\<lparr>cb_stack := st\<rparr>) = Some (Inr s2)"
  shows "cb_tree g s = cb_tree g s2"
  by (subst cb_tree.simps) (simp add: assms Let_def del: fold_visit.simps)

lemma tree_done: "cb_stack s = [] \<Longrightarrow> cb_tree g s = Some (Inr s)"
  by (subst cb_tree.simps) simp

lemma fold_visit_seen:
  assumes "\<And>nbr. nbr \<in> set nbrs \<Longrightarrow> cb_used s nbr \<noteq> None \<and> nbr \<noteq> z \<and> nbr \<in> zused"
  shows "fold_visit (cb_visit z zused) nbrs s = Some (Inr s)"
  using assms
proof (induction nbrs)
  case Nil
  then show ?case by simp
next
  case (Cons x xs)
  from Cons.prems [of x] obtain pn where "cb_used s x = Some pn" "x \<noteq> z" "x \<in> zused" by auto 
  then have "cb_visit z zused x s = Some (Inr s)" by (rule cb_visit_seen)
  moreover have "fold_visit (cb_visit z zused) xs s = Some (Inr s)"
    using Cons.prems by (intro Cons.IH) auto
  ultimately show ?case by simp
qed

lemmas visit_eval = cb_visit_def OrderedSet_init_def os_add_def cycle_walk.simps

lemma apex_step1:
  assumes d: "distinct [a, b, p, q]" and ap: "adj g p = Some [a, b]"
  shows "cb_tree g \<lparr>cb_stack = [p], cb_pred = [p \<mapsto> p], cb_used = [p \<mapsto> {}], cb_cycles = []\<rparr>
       = cb_tree g \<lparr>cb_stack = [a, b], cb_pred = [p \<mapsto> p, a \<mapsto> p, b \<mapsto> p],
                     cb_used = [p \<mapsto> {}, a \<mapsto> {p}, b \<mapsto> {p}], cb_cycles = []\<rparr>"
  using d by (intro tree_pop [where st = "[]" and zused = "{}", OF _ _ ap]) (auto simp: visit_eval)

lemma apex_step2:
  assumes d: "distinct [a, b, p, q]" and ab: "neighbours g b [a, p, q]"
  shows "cb_tree g \<lparr>cb_stack = [a, b], cb_pred = [p \<mapsto> p, a \<mapsto> p, b \<mapsto> p],
                     cb_used = [p \<mapsto> {}, a \<mapsto> {p}, b \<mapsto> {p}], cb_cycles = []\<rparr>
       = cb_tree g \<lparr>cb_stack = [a, q], cb_pred = [p \<mapsto> p, a \<mapsto> p, b \<mapsto> p, q \<mapsto> b],
                     cb_used = [p \<mapsto> {}, a \<mapsto> {b, p}, b \<mapsto> {p}, q \<mapsto> {b}],
                     cb_cycles = [Ordered [a, b, p]]\<rparr>"
    (is "cb_tree g ?s = cb_tree g ?s'")
proof -
  have step: "cb_tree g ?s = cb_tree g ?s'"
    if "adj g b = Some nbrs"
      and "nbrs \<in> {[a, p, q], [a, q, p], [p, a, q], [p, q, a], [q, a, p], [q, p, a]}" for nbrs
    using that(2) d
    by (intro tree_pop [where st = "[a]" and zused = "{p}", OF _ _ that(1)])
       (auto simp: visit_eval fun_eq_iff)
  have "distinct [a, p, q]" using d by simp
  from neighbours3 [OF ab this] show ?thesis using step by blast
qed

lemma apex_step3:
  assumes d: "distinct [a, b, p, q]" and aq: "neighbours g q [a, b]"
  shows "cb_tree g \<lparr>cb_stack = [a, q], cb_pred = [p \<mapsto> p, a \<mapsto> p, b \<mapsto> p, q \<mapsto> b],
                     cb_used = [p \<mapsto> {}, a \<mapsto> {b, p}, b \<mapsto> {p}, q \<mapsto> {b}],
                     cb_cycles = [Ordered [a, b, p]]\<rparr>
       = cb_tree g \<lparr>cb_stack = [a], cb_pred = [p \<mapsto> p, a \<mapsto> p, b \<mapsto> p, q \<mapsto> b],
                     cb_used = [p \<mapsto> {}, a \<mapsto> {q, b, p}, b \<mapsto> {p}, q \<mapsto> {b}],
                     cb_cycles = [Ordered [a, b, p], Ordered [a, q, b]]\<rparr>"
    (is "cb_tree g ?s = cb_tree g ?s'")
proof -
  have step: "cb_tree g ?s = cb_tree g ?s'"
    if "adj g q = Some nbrs" and "nbrs \<in> {[a, b], [b, a]}" for nbrs
    using that(2) d
    by (intro tree_pop [where st = "[a]" and zused = "{b}", OF _ _ that(1)])
       (auto simp: visit_eval fun_eq_iff)
  have "a \<noteq> b" using d by simp
  from neighbours2 [OF aq this] show ?thesis using step by blast
qed

lemma neighbours_set: "neighbours g v ns \<Longrightarrow> \<exists>xs. adj g v = Some xs \<and> set xs = set ns"
  by (auto simp: neighbours_def split: option.splits)

lemma apex_step4:
  assumes d: "distinct [a, b, p, q]" and aa: "neighbours g a [b, p, q]"
  shows "cb_tree g \<lparr>cb_stack = [a], cb_pred = [p \<mapsto> p, a \<mapsto> p, b \<mapsto> p, q \<mapsto> b],
                     cb_used = [p \<mapsto> {}, a \<mapsto> {q, b, p}, b \<mapsto> {p}, q \<mapsto> {b}],
                     cb_cycles = [Ordered [a, b, p], Ordered [a, q, b]]\<rparr>
       = Some (Inr \<lparr>cb_stack = [], cb_pred = [p \<mapsto> p, a \<mapsto> p, b \<mapsto> p, q \<mapsto> b],
                     cb_used = [p \<mapsto> {}, a \<mapsto> {q, b, p}, b \<mapsto> {p}, q \<mapsto> {b}],
                     cb_cycles = [Ordered [a, b, p], Ordered [a, q, b]]\<rparr>)"
    (is "cb_tree g ?s = Some (Inr ?s')")
proof -
  from neighbours_set [OF aa] obtain xs where xs: "adj g a = Some xs" "set xs = {b, p, q}"
    by auto
  have "fold_visit (cb_visit a {q, b, p}) xs (?s\<lparr>cb_stack := []\<rparr>)
        = Some (Inr (?s\<lparr>cb_stack := []\<rparr>))"
    using xs(2) d by (intro fold_visit_seen) auto
  then have "cb_tree g ?s = cb_tree g ?s'"
    using d by (intro tree_pop [where st = "[]" and zused = "{q, b, p}", OF _ _ xs(1)]) auto
  then show ?thesis by (simp add: tree_done)
qed

lemma pair_ok_swap_ab: "pair_ok b a p q t1 t2 \<Longrightarrow> pair_ok a b p q t1 t2"
  by (simp add: pair_ok_def insert_commute)

lemma pair_ok_swap_pq: "pair_ok a b q p t1 t2 \<Longrightarrow> pair_ok a b p q t1 t2"
  by (auto simp: pair_ok_def)

lemma tree_ok_swap_ab: "tree_ok g b a p q r \<Longrightarrow> tree_ok g a b p q r"
  unfolding tree_ok_def using pair_ok_swap_ab by (fastforce simp: insert_commute)

lemma tree_ok_swap_pq: "tree_ok g a b q p r \<Longrightarrow> tree_ok g a b p q r"
  unfolding tree_ok_def using pair_ok_swap_pq by (fastforce simp: insert_commute)

lemma two_triangles_swap_ab: "two_triangles g a b p q \<Longrightarrow> two_triangles g b a p q"
  by (auto simp: two_triangles_def neighbours_def split: option.splits)

lemma two_triangles_swap_pq: "two_triangles g a b p q \<Longrightarrow> two_triangles g a b q p"
  by (auto simp: two_triangles_def neighbours_def split: option.splits)

lemma apex_tree:
  assumes t: "two_triangles g a b p q" and ap: "adj g p = Some [a, b]"
  shows "tree_ok g a b p q p"
proof -
  from t have d: "distinct [a, b, p, q]" and na: "neighbours g a [b, p, q]"
    and nb: "neighbours g b [a, p, q]" and nq: "neighbours g q [a, b]"
    by (simp_all add: two_triangles_def)
  have "cb_tree g \<lparr>cb_stack = [p], cb_pred = [p \<mapsto> p], cb_used = [p \<mapsto> {}], cb_cycles = []\<rparr>
        = Some (Inr \<lparr>cb_stack = [], cb_pred = [p \<mapsto> p, a \<mapsto> p, b \<mapsto> p, q \<mapsto> b],
                      cb_used = [p \<mapsto> {}, a \<mapsto> {q, b, p}, b \<mapsto> {p}, q \<mapsto> {b}],
                      cb_cycles = [Ordered [a, b, p], Ordered [a, q, b]]\<rparr>)"
    unfolding apex_step1 [OF d ap] apex_step2 [OF d nb] apex_step3 [OF d nq]
    by (rule apex_step4 [OF d na])
  then show ?thesis
    unfolding tree_ok_def pair_ok_def using d by auto
qed

lemma apex_root:
  assumes t: "two_triangles g a b p q"
  shows "tree_ok g a b p q p"
proof -
  from t have "neighbours g p [a, b]" and "a \<noteq> b" by (simp_all add: two_triangles_def)
  from neighbours2 [OF this] show ?thesis
  proof
    assume "adj g p = Some [a, b]"
    then show ?thesis using apex_tree [OF t] by simp
  next
    assume "adj g p = Some [b, a]"
    then show ?thesis
      using apex_tree [OF two_triangles_swap_ab [OF t]] tree_ok_swap_ab by simp
  qed
qed

lemma hub_step1:
  assumes d: "distinct [a, x1, x2, x3]" and aa: "adj g a = Some [x1, x2, x3]"
  shows "cb_tree g \<lparr>cb_stack = [a], cb_pred = [a \<mapsto> a], cb_used = [a \<mapsto> {}], cb_cycles = []\<rparr>
       = cb_tree g \<lparr>cb_stack = [x1, x2, x3], cb_pred = [a \<mapsto> a, x1 \<mapsto> a, x2 \<mapsto> a, x3 \<mapsto> a],
                     cb_used = [a \<mapsto> {}, x1 \<mapsto> {a}, x2 \<mapsto> {a}, x3 \<mapsto> {a}],
                     cb_cycles = []\<rparr>"
  using d by (intro tree_pop [where st = "[]" and zused = "{}", OF _ _ aa]) (auto simp: visit_eval)

text \<open>The hub's last neighbour is the other hub.\<close>

lemma hub1_step2:
  assumes d: "distinct [a, b, p, q]" and nb: "neighbours g b [a, p, q]"
  shows "\<exists>cs. (cs = [Ordered [p, b, a], Ordered [q, b, a]] \<or> cs = [Ordered [q, b, a], Ordered [p, b, a]]) \<and>
         cb_tree g \<lparr>cb_stack = [p, q, b], cb_pred = [a \<mapsto> a, p \<mapsto> a, q \<mapsto> a, b \<mapsto> a],
                     cb_used = [a \<mapsto> {}, p \<mapsto> {a}, q \<mapsto> {a}, b \<mapsto> {a}],
                     cb_cycles = []\<rparr>
       = cb_tree g \<lparr>cb_stack = [p, q], cb_pred = [a \<mapsto> a, p \<mapsto> a, q \<mapsto> a, b \<mapsto> a],
                     cb_used = [a \<mapsto> {}, p \<mapsto> {b, a}, q \<mapsto> {b, a}, b \<mapsto> {a}],
                     cb_cycles = cs\<rparr>"
    (is "\<exists>cs. ?C cs \<and> cb_tree g ?s = cb_tree g (?s' cs)")
proof -
  have stepA: "cb_tree g ?s = cb_tree g (?s' [Ordered [p, b, a], Ordered [q, b, a]])"
    if "adj g b = Some nbrs" and "nbrs \<in> {[a, p, q], [p, a, q], [p, q, a]}" for nbrs
    using that(2) d
    by (intro tree_pop [where st = "[p, q]" and zused = "{a}", OF _ _ that(1)])
       (auto simp: visit_eval fun_eq_iff)
  have stepB: "cb_tree g ?s = cb_tree g (?s' [Ordered [q, b, a], Ordered [p, b, a]])"
    if "adj g b = Some nbrs" and "nbrs \<in> {[a, q, p], [q, a, p], [q, p, a]}" for nbrs
    using that(2) d
    by (intro tree_pop [where st = "[p, q]" and zused = "{a}", OF _ _ that(1)])
       (auto simp: visit_eval fun_eq_iff)
  have "distinct [a, p, q]" using d by simp
  from neighbours3 [OF nb this] show ?thesis using stepA stepB by blast
qed

lemma hub1_tail:
  assumes d: "distinct [a, b, p, q]" and np: "neighbours g p [a, b]" and nq: "neighbours g q [a, b]"
  shows "cb_tree g \<lparr>cb_stack = [p, q], cb_pred = [a \<mapsto> a, p \<mapsto> a, q \<mapsto> a, b \<mapsto> a],
                     cb_used = [a \<mapsto> {}, p \<mapsto> {b, a}, q \<mapsto> {b, a}, b \<mapsto> {a}],
                     cb_cycles = cs\<rparr>
       = Some (Inr \<lparr>cb_stack = [], cb_pred = [a \<mapsto> a, p \<mapsto> a, q \<mapsto> a, b \<mapsto> a],
                     cb_used = [a \<mapsto> {}, p \<mapsto> {b, a}, q \<mapsto> {b, a}, b \<mapsto> {a}],
                     cb_cycles = cs\<rparr>)"
    (is "cb_tree g ?s = Some (Inr ?s')")
proof -
  from neighbours_set [OF np] obtain xs where xs: "adj g p = Some xs" "set xs = {a, b}" by auto
  from neighbours_set [OF nq] obtain ys where ys: "adj g q = Some ys" "set ys = {a, b}" by auto
  let ?m = "?s\<lparr>cb_stack := [p]\<rparr>"
  have "fold_visit (cb_visit q {b, a}) ys ?m = Some (Inr ?m)"
    using ys(2) d by (intro fold_visit_seen) auto
  then have 1: "cb_tree g ?s = cb_tree g ?m"
    using d by (intro tree_pop [where st = "[p]" and zused = "{b, a}", OF _ _ ys(1)]) auto
  have "fold_visit (cb_visit p {b, a}) xs (?m\<lparr>cb_stack := []\<rparr>)
        = Some (Inr (?m\<lparr>cb_stack := []\<rparr>))"
    using xs(2) d by (intro fold_visit_seen) auto
  then have 2: "cb_tree g ?m = cb_tree g ?s'"
    using d by (intro tree_pop [where st = "[]" and zused = "{b, a}", OF _ _ xs(1)]) auto
  show ?thesis unfolding 1 2 by (simp add: tree_done)
qed

lemma hub1_tree:
  assumes t: "two_triangles g a b p q" and aa: "adj g a = Some [p, q, b]"
  shows "tree_ok g a b p q a"
proof -
  from t have d: "distinct [a, b, p, q]" and nb: "neighbours g b [a, p, q]"
    and np: "neighbours g p [a, b]" and nq: "neighbours g q [a, b]"
    by (simp_all add: two_triangles_def)
  have d1: "distinct [a, p, q, b]" using d by auto
  from hub1_step2 [OF d nb] obtain cs where
    cs: "cs = [Ordered [p, b, a], Ordered [q, b, a]] \<or> cs = [Ordered [q, b, a], Ordered [p, b, a]]"
    and st: "cb_tree g \<lparr>cb_stack = [p, q, b], cb_pred = [a \<mapsto> a, p \<mapsto> a, q \<mapsto> a, b \<mapsto> a],
                     cb_used = [a \<mapsto> {}, p \<mapsto> {a}, q \<mapsto> {a}, b \<mapsto> {a}],
                     cb_cycles = []\<rparr>
       = cb_tree g \<lparr>cb_stack = [p, q], cb_pred = [a \<mapsto> a, p \<mapsto> a, q \<mapsto> a, b \<mapsto> a],
                     cb_used = [a \<mapsto> {}, p \<mapsto> {b, a}, q \<mapsto> {b, a}, b \<mapsto> {a}],
                     cb_cycles = cs\<rparr>"
    by blast
  have "cb_tree g \<lparr>cb_stack = [a], cb_pred = [a \<mapsto> a], cb_used = [a \<mapsto> {}], cb_cycles = []\<rparr>
        = Some (Inr \<lparr>cb_stack = [], cb_pred = [a \<mapsto> a, p \<mapsto> a, q \<mapsto> a, b \<mapsto> a],
                     cb_used = [a \<mapsto> {}, p \<mapsto> {b, a}, q \<mapsto> {b, a}, b \<mapsto> {a}],
                     cb_cycles = cs\<rparr>)"
    unfolding hub_step1 [OF d1 aa] st by (rule hub1_tail [OF d np nq])
  then show ?thesis
    unfolding tree_ok_def pair_ok_def using d cs by auto
qed

text \<open>The hub's last neighbour is an apex, the other hub is first.\<close>

lemma hub2_tree:
  assumes t: "two_triangles g a b p q" and aa: "adj g a = Some [b, q, p]"
  shows "tree_ok g a b p q a"
proof -
  from t have d: "distinct [a, b, p, q]" and nb: "neighbours g b [a, p, q]"
    and np: "neighbours g p [a, b]" and nq: "neighbours g q [a, b]"
    by (simp_all add: two_triangles_def)
  have d1: "distinct [a, b, q, p]" and ab: "a \<noteq> b" using d by auto
  let ?P = "[a \<mapsto> a, b \<mapsto> a, q \<mapsto> a, p \<mapsto> a]"
  let ?s1 = "\<lparr>cb_stack = [b, q, p], cb_pred = ?P,
               cb_used = [a \<mapsto> {}, b \<mapsto> {a}, q \<mapsto> {a}, p \<mapsto> {a}], cb_cycles = []\<rparr>"
  let ?s2 = "\<lparr>cb_stack = [b, q], cb_pred = ?P,
               cb_used = [a \<mapsto> {}, b \<mapsto> {p, a}, q \<mapsto> {a}, p \<mapsto> {a}],
               cb_cycles = [Ordered [b, p, a]]\<rparr>"
  have step2: "cb_tree g ?s1 = cb_tree g ?s2"
    if "adj g p = Some nbrs" and "nbrs \<in> {[a, b], [b, a]}" for nbrs
    using that(2) d
    by (intro tree_pop [where st = "[b, q]" and zused = "{a}", OF _ _ that(1)])
       (auto simp: visit_eval fun_eq_iff)
  have 2: "cb_tree g ?s1 = cb_tree g ?s2"
    using neighbours2 [OF np ab] step2 by blast
  let ?s3 = "\<lparr>cb_stack = [b], cb_pred = ?P,
               cb_used = [a \<mapsto> {}, b \<mapsto> {q, p, a}, q \<mapsto> {a}, p \<mapsto> {a}],
               cb_cycles = [Ordered [b, p, a], Ordered [b, q, a]]\<rparr>"
  have step3: "cb_tree g ?s2 = cb_tree g ?s3"
    if "adj g q = Some nbrs" and "nbrs \<in> {[a, b], [b, a]}" for nbrs
    using that(2) d
    by (intro tree_pop [where st = "[b]" and zused = "{a}", OF _ _ that(1)])
       (auto simp: visit_eval fun_eq_iff)
  have 3: "cb_tree g ?s2 = cb_tree g ?s3"
    using neighbours2 [OF nq ab] step3 by blast
  from neighbours_set [OF nb] obtain xs where xs: "adj g b = Some xs" "set xs = {a, p, q}"
    by auto
  have "fold_visit (cb_visit b {q, p, a}) xs (?s3\<lparr>cb_stack := []\<rparr>)
        = Some (Inr (?s3\<lparr>cb_stack := []\<rparr>))"
    using xs(2) d by (intro fold_visit_seen) auto
  then have 4: "cb_tree g ?s3 = cb_tree g (?s3\<lparr>cb_stack := []\<rparr>)"
    using d by (intro tree_pop [where st = "[]" and zused = "{q, p, a}", OF _ _ xs(1)]) auto
  have "cb_tree g \<lparr>cb_stack = [a], cb_pred = [a \<mapsto> a], cb_used = [a \<mapsto> {}], cb_cycles = []\<rparr>
        = Some (Inr (?s3\<lparr>cb_stack := []\<rparr>))"
    unfolding hub_step1 [OF d1 aa] 2 3 4
    by (simp add: tree_done)
  then show ?thesis
    unfolding tree_ok_def pair_ok_def using d by auto
qed

lemma hub3_tree:
  assumes t: "two_triangles g a b p q" and aa: "adj g a = Some [q, b, p]"
  shows "tree_ok g a b p q a"
proof -
  from t have d: "distinct [a, b, p, q]" and nb: "neighbours g b [a, p, q]"
    and np: "neighbours g p [a, b]" and nq: "neighbours g q [a, b]"
    by (simp_all add: two_triangles_def)
  have d1: "distinct [a, q, b, p]" and d3: "distinct [a, p, q]" and ab: "a \<noteq> b"
    using d by auto
  let ?P = "[a \<mapsto> a, q \<mapsto> a, b \<mapsto> a, p \<mapsto> a]"
  let ?s1 = "\<lparr>cb_stack = [q, b, p], cb_pred = ?P,
               cb_used = [a \<mapsto> {}, q \<mapsto> {a}, b \<mapsto> {a}, p \<mapsto> {a}], cb_cycles = []\<rparr>"
  let ?s2 = "\<lparr>cb_stack = [q, b], cb_pred = ?P,
               cb_used = [a \<mapsto> {}, q \<mapsto> {a}, b \<mapsto> {p, a}, p \<mapsto> {a}],
               cb_cycles = [Ordered [b, p, a]]\<rparr>"
  have step2: "cb_tree g ?s1 = cb_tree g ?s2"
    if "adj g p = Some nbrs" and "nbrs \<in> {[a, b], [b, a]}" for nbrs
    using that(2) d
    by (intro tree_pop [where st = "[q, b]" and zused = "{a}", OF _ _ that(1)])
       (auto simp: visit_eval fun_eq_iff)
  have 2: "cb_tree g ?s1 = cb_tree g ?s2"
    using neighbours2 [OF np ab] step2 by blast
  let ?s3 = "\<lparr>cb_stack = [q], cb_pred = ?P,
               cb_used = [a \<mapsto> {}, q \<mapsto> {b, a}, b \<mapsto> {p, a}, p \<mapsto> {a}],
               cb_cycles = [Ordered [b, p, a], Ordered [q, b, a]]\<rparr>"
  have step3: "cb_tree g ?s2 = cb_tree g ?s3"
    if "adj g b = Some nbrs"
      and "nbrs \<in> {[a, p, q], [a, q, p], [p, a, q], [p, q, a], [q, a, p], [q, p, a]}" for nbrs
    using that(2) d
    by (intro tree_pop [where st = "[q]" and zused = "{p, a}", OF _ _ that(1)])
       (auto simp: visit_eval fun_eq_iff)
  have 3: "cb_tree g ?s2 = cb_tree g ?s3"
    using neighbours3 [OF nb d3] step3 by blast
  from neighbours_set [OF nq] obtain xs where xs: "adj g q = Some xs" "set xs = {a, b}"
    by auto
  have "fold_visit (cb_visit q {b, a}) xs (?s3\<lparr>cb_stack := []\<rparr>)
        = Some (Inr (?s3\<lparr>cb_stack := []\<rparr>))"
    using xs(2) d by (intro fold_visit_seen) auto
  then have 4: "cb_tree g ?s3 = cb_tree g (?s3\<lparr>cb_stack := []\<rparr>)"
    using d by (intro tree_pop [where st = "[]" and zused = "{b, a}", OF _ _ xs(1)]) auto
  have "cb_tree g \<lparr>cb_stack = [a], cb_pred = [a \<mapsto> a], cb_used = [a \<mapsto> {}], cb_cycles = []\<rparr>
        = Some (Inr (?s3\<lparr>cb_stack := []\<rparr>))"
    unfolding hub_step1 [OF d1 aa] 2 3 4
    by (simp add: tree_done)
  then show ?thesis
    unfolding tree_ok_def pair_ok_def using d by auto
qed

lemma hub_root:
  assumes t: "two_triangles g a b p q"
  shows "tree_ok g a b p q a"
proof -
  from t have na: "neighbours g a [b, p, q]" and d: "distinct [b, p, q]"
    by (simp_all add: two_triangles_def)
  note t' = two_triangles_swap_pq [OF t]
  from neighbours3 [OF na d]
  consider "adj g a = Some [p, q, b]" | "adj g a = Some [q, p, b]"
    | "adj g a = Some [b, q, p]" | "adj g a = Some [b, p, q]"
    | "adj g a = Some [q, b, p]" | "adj g a = Some [p, b, q]"
    by blast
  then show ?thesis
  proof cases
    case 1 then show ?thesis by (rule hub1_tree [OF t])
  next
    case 2 then show ?thesis by (intro tree_ok_swap_pq [OF hub1_tree [OF t']])
  next
    case 3 then show ?thesis by (rule hub2_tree [OF t])
  next
    case 4 then show ?thesis by (intro tree_ok_swap_pq [OF hub2_tree [OF t']])
  next
    case 5 then show ?thesis by (rule hub3_tree [OF t])
  next
    case 6 then show ?thesis by (intro tree_ok_swap_pq [OF hub3_tree [OF t']])
  qed
qed

lemma two_triangles_tree:
  assumes t: "two_triangles g a b p q" and r: "r \<in> {a, b, p, q}"
  shows "tree_ok g a b p q r"
proof -
  consider "r = a" | "r = b" | "r = p" | "r = q" using r by auto
  then show ?thesis
  proof cases
    case 1 then show ?thesis using hub_root [OF t] by simp
  next
    case 2 then show ?thesis
      using tree_ok_swap_ab [OF hub_root [OF two_triangles_swap_ab [OF t]]] by simp
  next
    case 3 then show ?thesis using apex_root [OF t] by simp
  next
    case 4 then show ?thesis
      using tree_ok_swap_pq [OF apex_root [OF two_triangles_swap_pq [OF t]]] by simp
  qed
qed

lemma distinct_foldl_os_add: "distinct acc \<Longrightarrow> distinct (foldl os_add acc xs)"
  by (induction xs arbitrary: acc) (auto simp: os_add_def)

lemma merge_pair:
  assumes d1: "distinct t1" and d2: "distinct t2" and sh: "2 \<le> card (set t1 \<inter> set t2)"
  shows "\<exists>l. merge_cycles [Ordered t1, Ordered t2] = Inr [Ordered l] \<and> distinct l \<and> set l = set t1 \<union> set t2"
proof -
  have f1: "from_iterable t1 = t1" using d1 by (simp add: from_iterable_def OrderedSet_init_distinct)
  have "distinct (filter (\<lambda>v. v \<in> set t1) t2)" using d2 by simp
  then have "from_iterable (filter (\<lambda>v. v \<in> set t1) t2) = filter (\<lambda>v. v \<in> set t1) t2"
    by (simp only: from_iterable_def OrderedSet_init_distinct)
  then have a: "OrderedSet_and t2 t1 = filter (\<lambda>v. v \<in> set t1) t2"
    by (simp only: OrderedSet_and_def Let_def f1)
  have "length (filter (\<lambda>v. v \<in> set t1) t2) = card ({v. v \<in> set t1} \<inter> set t2)"
    using d2 by (rule distinct_length_filter)
  then have len: "2 \<le> length (OrderedSet_and t2 t1)" using sh a by simp
  let ?r = "if isorderedsuperset t2 (OrderedSet_and t2 t1) = isorderedsuperset t1 (OrderedSet_and t2 t1)
            then OrderedSet_reverse t1 else t1"
  have fc: "find_contact t2 [Ordered t1] = Inr (Some ([Ordered ?r], ?r))"
    using len by (simp add: Let_def)
  have rv: "OrderedSet_reverse t1 = rev t1"
    using d1 OrderedSet_init_distinct [of "rev t1"]
    by (simp add: OrderedSet_reverse_def OrderedSet_init_def)
  have dr: "distinct ?r" and sr: "set ?r = set t1" using d1 rv by auto
  have m1: "merge_cycles [Ordered (OrderedSet_or t2 ?r)] = Inr [Ordered (OrderedSet_or t2 ?r)]"
    by (subst merge_cycles.simps) simp
  have m: "merge_cycles [Ordered t1, Ordered t2] = Inr [Ordered (OrderedSet_or t2 ?r)]"
    apply (subst merge_cycles.simps)
    using fc m1
    apply (simp add: Let_def del: find_contact.simps)
    done
  have "distinct (OrderedSet_or t2 ?r)"
    by (simp add: OrderedSet_or_def from_iterable_def OrderedSet_init_def distinct_foldl_os_add)
  moreover have "set (OrderedSet_or t2 ?r) = set t1 \<union> set t2"
    using sr by (auto simp: OrderedSet_or_def from_iterable_def OrderedSet_init_def set_foldl_os_add)
  ultimately show ?thesis using m by blast
qed

text \<open>On two triangles with a shared edge, with the neighbours of a node in any order and
  any root, \<^verbatim>\<open>outer_loop\<close> raises nothing and returns the four nodes, each once.\<close>

lemma two_triangles_outer_loop:
  assumes t: "two_triangles g a b p q" and pop: "pop (set (nodes g)) \<in> set (nodes g)"
  shows "\<exists>l. outer_loop pop g = Some (Inr l) \<and> distinct l \<and> length l = 4
             \<and> set l = {a, b, p, q}"
proof -
  from t have d: "distinct [a, b, p, q]" and s: "set (nodes g) = {a, b, p, q}"
    by (simp_all add: two_triangles_def)
  let ?r = "pop {a, b, p, q}"
  have r: "?r \<in> {a, b, p, q}" using pop s by simp
  from two_triangles_tree [OF t r] obtain s' t1 t2 where
    tr: "cb_tree g \<lparr>cb_stack = [?r], cb_pred = [?r \<mapsto> ?r], cb_used = [?r \<mapsto> {}],
                      cb_cycles = []\<rparr> = Some (Inr s')"
    and cy: "cb_cycles s' = [Ordered t1, Ordered t2]" and dm: "dom (cb_pred s') = {a, b, p, q}"
    and ok: "pair_ok a b p q t1 t2"
    unfolding tree_ok_def by blast
  have ne: "{a, b, p, q} \<noteq> {}" by simp
  have em: "{a, b, p, q} - {?r} - {a, b, p, q} = {}" by auto
  have stop: "cb_components pop g {} [Ordered t1, Ordered t2] = Some (Inr [Ordered t1, Ordered t2])"
    by (subst cb_components.simps) simp
  have step: "cb_components pop g {a, b, p, q} []
              = cb_components pop g ({a, b, p, q} - {?r} - dom (cb_pred s')) (cb_cycles s')"
    apply (subst cb_components.simps)
    using tr
    apply (simp add: Let_def)
    done
  have cb: "cycle_basis pop g = Some (Inr [Ordered t1, Ordered t2])"
    unfolding cycle_basis_def s step dm em cy stop ..
  from ok have d1: "distinct t1" and d2: "distinct t2"
    and un: "set t1 \<union> set t2 = {a, b, p, q}" and ab: "{a, b} \<subseteq> set t1 \<inter> set t2"
    by (auto simp: pair_ok_def)
  have "card {a, b} \<le> card (set t1 \<inter> set t2)" using ab by (intro card_mono) auto
  then have sh: "2 \<le> card (set t1 \<inter> set t2)" using d by simp
  from merge_pair [OF d1 d2 sh] obtain l where
    l: "merge_cycles [Ordered t1, Ordered t2] = Inr [Ordered l]" "distinct l" "set l = set t1 \<union> set t2" by blast
  have "card (set l) = 4" using l(3) un d by simp
  then have "length l = 4" using l(2) by (simp add: distinct_card)
  moreover have "outer_loop pop g = Some (Inr l)"
    using cb l(1) by (simp add: outer_loop_def)
  ultimately show ?thesis using l un by auto
qed

lemmas graph_eval =
  cycle_basis_def outer_loop_def cb_visit_def OrderedSet_init_def os_add_def
  OrderedSet_and_def OrderedSet_or_def OrderedSet_reverse_def from_iterable_def
  isorderedsuperset_def isorderedsubset_def Let_def
  cb_components.simps cb_tree.simps cycle_walk.simps merge_cycles.simps

lemma pentagon_polygon: "polygon pentagon [0, 1, 2, 3, 4]"
  by (simp add: polygon_def pentagon_def upt5)

lemma pentagon_basis: "cycle_basis Min pentagon = Some (Inr [Ordered [1, 2, 3, 4, 0]])"
  by (simp add: graph_eval pentagon_def)

lemma kite_triangles: "two_triangles kite 1 2 0 3"
  by (auto simp: two_triangles_def neighbours_def kite_def)

lemma kite_loop: "outer_loop Min kite = Some (Inr [1, 3, 2, 0])"
  by (simp add: graph_eval kite_def)

text \<open>When the root is an end of the shared edge, here the edge between 0 and 1, the two
  ends of that edge can come next to each other in the result.\<close>

lemma kite2_loop: "outer_loop Min kite2 = Some (Inr [2, 1, 0, 3])"
  by (simp add: graph_eval kite2_def)

text \<open>
  Claim C10, evaluated on \<open>kite2\<close>: the triangles 0 1 2 and 0 1 3 on the shared edge between
  0 and 1, with the root 0. \<^verbatim>\<open>outer_loop\<close> returns the ordered set 2, 1, 0, 3. It holds
  the four nodes, but it is not the outer boundary 2, 0, 3, 1: it goes from 1 to 0 along the
  shared edge, and from 3 back to 2, which are not neighbours.
\<close>

theorem outer_loop_not_boundary:
  "two_triangles kite2 0 1 2 3
   \<and> Min (set (nodes kite2)) = 0
   \<and> cycle_basis Min kite2 = Some (Inr [Ordered [1, 3, 0], Ordered [2, 1, 0]])
   \<and> outer_loop Min kite2 = Some (Inr [2, 1, 0, 3])
   \<and> adj kite2 3 = Some [0, 1]
   \<and> \<not> walks_around kite2 [2, 1, 0, 3]
   \<and> walks_around kite2 [2, 0, 3, 1]"
proof -
  have "two_triangles kite2 0 1 2 3"
    by (auto simp: two_triangles_def neighbours_def kite2_def)
  moreover have "cycle_basis Min kite2 = Some (Inr [Ordered [1, 3, 0], Ordered [2, 1, 0]])"
    by (simp add: graph_eval kite2_def)
  moreover have "\<not> walks_around kite2 [2, 1, 0, 3]" "walks_around kite2 [2, 0, 3, 1]"
    by (simp_all add: walks_around_def kite2_def upt4)
  ultimately show ?thesis
    using kite2_loop by (simp add: kite2_def)
qed

end
